theory Spec2Isabelle
  imports Main "HOL-Library.Word"
begin

section \<open>Buffers and the JavaScript primitives the codec uses\<close>

text \<open>
  A Node.js \<open>Buffer\<close> is a list of bytes. JavaScript strings are modelled as \<open>string\<close>,
  so the model covers strings whose characters lie in the Latin-1 range. The numbers that
  the code passes to the \<open>writeUInt...\<close> methods are integers and modelled as \<open>int\<close>;
  what \<open>parseInt\<close> returns is a \<open>number\<close>.
\<close>

type_synonym byte = "8 word"
type_synonym buffer = "byte list"

datatype error = RangeError

datatype js_value = JsString string | JsOther

text \<open>\<open>Buffer.alloc(n)\<close>: \<open>n\<close> zero bytes.\<close>

definition alloc :: "nat \<Rightarrow> buffer" where
  "alloc n = replicate n 0"

text \<open>
  \<open>src.copy(target, targetStart)\<close>: overwrites \<open>target\<close> from \<open>targetStart\<close> on with
  the bytes of \<open>src\<close>, as many as fit; the target keeps its length.
\<close>

definition copy :: "buffer \<Rightarrow> buffer \<Rightarrow> nat \<Rightarrow> buffer" where
  "copy src target targetStart =
     take targetStart target @ take (length target - targetStart) src
       @ drop (targetStart + length src) target"

text \<open>The \<open>writeUInt...\<close> methods throw a RangeError on a value outside the field.\<close>

definition writeUInt8 :: "int \<Rightarrow> nat \<Rightarrow> buffer \<Rightarrow> error + buffer" where
  "writeUInt8 v off buf =
     (if 0 \<le> v \<and> v \<le> 255 then Inr (copy [of_int v] buf off) else Inl RangeError)"

definition writeUInt16BE :: "int \<Rightarrow> nat \<Rightarrow> buffer \<Rightarrow> error + buffer" where
  "writeUInt16BE v off buf =
     (if 0 \<le> v \<and> v \<le> 65535
      then Inr (copy [of_int (v div 256), of_int v] buf off) else Inl RangeError)"

definition writeUInt32BE :: "int \<Rightarrow> nat \<Rightarrow> buffer \<Rightarrow> error + buffer" where
  "writeUInt32BE v off buf =
     (if 0 \<le> v \<and> v \<le> 4294967295
      then Inr (copy [of_int (v div 16777216), of_int (v div 65536), of_int (v div 256),
                      of_int v] buf off)
      else Inl RangeError)"

definition readUInt8 :: "buffer \<Rightarrow> nat \<Rightarrow> nat" where
  "readUInt8 buf off = unat (buf ! off)"

definition readUInt16BE :: "buffer \<Rightarrow> nat \<Rightarrow> nat" where
  "readUInt16BE buf off = unat (buf ! off) * 256 + unat (buf ! (off + 1))"

definition readUInt32BE :: "buffer \<Rightarrow> nat \<Rightarrow> nat" where
  "readUInt32BE buf off =
     unat (buf ! off) * 16777216 + unat (buf ! (off + 1)) * 65536
       + unat (buf ! (off + 2)) * 256 + unat (buf ! (off + 3))"

text \<open>\<open>buf.subarray(start, stop)\<close> for \<open>start \<le> stop\<close>.\<close>

definition subarray :: "buffer \<Rightarrow> nat \<Rightarrow> nat \<Rightarrow> buffer" where
  "subarray buf start stop = take (stop - start) (drop start buf)"

subsection \<open>Hexadecimal strings\<close>

definition unhex :: "char \<Rightarrow> nat option" where
  "unhex c =
     (let n = (of_char c :: nat) in
      if 48 \<le> n \<and> n \<le> 57 then Some (n - 48)
      else if 97 \<le> n \<and> n \<le> 102 then Some (n - 87)
      else if 65 \<le> n \<and> n \<le> 70 then Some (n - 55)
      else None)"

text \<open>
  \<open>Buffer.from(s, 'hex')\<close>: decodes pairs of hex digits and stops at the first pair that
  is not two hex digits; a last single character is ignored.
\<close>

fun fromHex :: "string \<Rightarrow> buffer" where
  "fromHex (a # b # rest) =
     (case unhex a of
        None \<Rightarrow> []
      | Some x \<Rightarrow> (case unhex b of
                    None \<Rightarrow> []
                  | Some y \<Rightarrow> of_nat (16 * x + y) # fromHex rest))"
| "fromHex _ = []"

definition hexDigit :: "nat \<Rightarrow> char" where
  "hexDigit n = ''0123456789abcdef'' ! n"

text \<open>\<open>buf.toString('hex')\<close>: two lower-case hex digits for each byte.\<close>

fun toHex :: "buffer \<Rightarrow> string" where
  "toHex [] = []"
| "toHex (b # bs) = hexDigit (unat b div 16) # hexDigit (unat b mod 16) # toHex bs"

subsection \<open>Dotted addresses\<close>

text \<open>\<open>s.split('.')\<close>, for any separator character.\<close>

fun split :: "char \<Rightarrow> string \<Rightarrow> string list" where
  "split sep [] = [[]]"
| "split sep (c # cs) =
     (let r = split sep cs in
      if c = sep then [] # r else (c # hd r) # tl r)"

text \<open>\<open>parts.join('.')\<close>, for any separator character.\<close>

fun join :: "char \<Rightarrow> string list \<Rightarrow> string" where
  "join sep [] = []"
| "join sep [p] = p"
| "join sep (p # q # ps) = p @ sep # join sep (q # ps)"

text \<open>The decimal string of a non-negative integer, as \<open>Array.prototype.join\<close> writes a byte.\<close>

fun numberToString :: "nat \<Rightarrow> string" where
  "numberToString n =
     (if n < 10 then [char_of (48 + n)]
      else numberToString (n div 10) @ [char_of (48 + n mod 10)])"

declare numberToString.simps [simp del]

definition isWhiteSpace :: "char \<Rightarrow> bool" where
  "isWhiteSpace c = ((of_char c :: nat) \<in> {9, 10, 11, 12, 13, 32, 160})"

definition digitValue :: "nat \<Rightarrow> char \<Rightarrow> nat option" where
  "digitValue radix c =
     (let n = (of_char c :: nat);
          v = (if 48 \<le> n \<and> n \<le> 57 then n - 48
               else if 97 \<le> n \<and> n \<le> 122 then n - 87
               else if 65 \<le> n \<and> n \<le> 90 then n - 55
               else radix)
      in if v < radix then Some v else None)"

text \<open>
  The values of \<open>parseInt\<close>: NaN, an integer that a double holds exactly, or an infinity.
\<close>

datatype number = NaN | Finite int | PosInfinity | NegInfinity

fun bitLength :: "nat \<Rightarrow> nat" where
  "bitLength n = (if n = 0 then 0 else Suc (bitLength (n div 2)))"

declare bitLength.simps [simp del]

text \<open>
  The double nearest to a non-negative integer, ties going to the even significand: an
  integer of more than 53 bits keeps its leading 53 bits, rounded. \<open>None\<close> stands for a
  value beyond the largest double, which is \<open>Infinity\<close>.
\<close>

definition roundToDouble :: "nat \<Rightarrow> nat option" where
  "roundToDouble n =
     (if bitLength n \<le> 53 then Some n
      else
        (let e = bitLength n - 53;
             q = n div 2 ^ e;
             r = n mod 2 ^ e;
             up = (2 * r > 2 ^ e \<or> (2 * r = 2 ^ e \<and> odd q));
             m = (if up then q + 1 else q) * 2 ^ e
         in if m < 2 ^ 1024 then Some m else None))"

text \<open>
  \<open>parseInt(s)\<close> with no radix argument: leading white space is skipped, a sign is read,
  a \<open>0x\<close> or \<open>0X\<close> prefix selects radix 16, and the longest run of digits is the value,
  as a double; no digit gives NaN.
\<close>

definition parseInt :: "string \<Rightarrow> number" where
  "parseInt s =
     (let s1 = dropWhile isWhiteSpace s;
          negative = (s1 \<noteq> [] \<and> hd s1 = CHR ''-'');
          s2 = (if s1 \<noteq> [] \<and> (hd s1 = CHR ''-'' \<or> hd s1 = CHR ''+'') then tl s1 else s1);
          hexPrefix = (length s2 \<ge> 2 \<and> hd s2 = CHR ''0''
                       \<and> (s2 ! 1 = CHR ''x'' \<or> s2 ! 1 = CHR ''X''));
          radix = (if hexPrefix then 16 else 10);
          s3 = (if hexPrefix then drop 2 s2 else s2);
          ds = takeWhile (\<lambda>c. digitValue radix c \<noteq> None) s3;
          n = foldl (\<lambda>a c. a * radix + the (digitValue radix c)) 0 ds
      in if ds = [] then NaN
         else (case roundToDouble n of
                 None \<Rightarrow> if negative then NegInfinity else PosInfinity
               | Some m \<Rightarrow> Finite (if negative then - int m else int m)))"

text \<open>\<open>x || 0\<close> on a number: NaN and zero are falsy.\<close>

definition orZero :: "number \<Rightarrow> number" where
  "orZero x = (if x = NaN \<or> x = Finite 0 then Finite 0 else x)"

text \<open>
  The byte that \<open>Buffer.from(array)\<close> stores for a number: the low eight bits of an
  integer, and zero for NaN and the infinities.
\<close>

definition toUint8 :: "number \<Rightarrow> byte" where
  "toUint8 x = (case x of Finite v \<Rightarrow> of_int v | _ \<Rightarrow> 0)"

section \<open>The frame codec: createPacket\<close>

definition CMD_DATA :: int where "CMD_DATA = 1"
definition CMD_DISCONNECT :: int where "CMD_DISCONNECT = 3"
definition CMD_PROGRAM_CLOSE :: int where "CMD_PROGRAM_CLOSE = 5"

text \<open>\<open>s.replace(/-/g, '')\<close>.\<close>

definition removeHyphens :: "string \<Rightarrow> string" where
  "removeHyphens s = filter (\<lambda>c. c \<noteq> CHR ''-'') s"

text \<open>
  The three branches that build \<open>clientIdBuffer\<close>. The argument \<open>uuid\<close> is the string that
  the call of \<open>crypto.randomUUID()\<close> in the third branch returns.
\<close>

definition clientIdBuffer :: "js_value \<Rightarrow> string \<Rightarrow> buffer" where
  "clientIdBuffer clientId uuid =
     (case clientId of
        JsString s \<Rightarrow>
          if length s = 32 then fromHex s
          else if CHR ''-'' \<in> set s then fromHex (removeHyphens s)
          else fromHex (removeHyphens uuid)
      | JsOther \<Rightarrow> fromHex (removeHyphens uuid))"

text \<open>\<open>targetHost.split('.').map(part => parseInt(part) || 0)\<close>.\<close>

definition ipParts :: "string \<Rightarrow> number list" where
  "ipParts targetHost = map (\<lambda>part. orZero (parseInt part)) (split CHR ''.'' targetHost)"

text \<open>
  \<open>Buffer.from(ipParts.slice(0, 4))\<close>. An empty \<open>targetHost\<close> is falsy and leaves the
  four zero bytes.
\<close>

definition ipBuffer :: "string \<Rightarrow> buffer" where
  "ipBuffer targetHost =
     (if targetHost = [] then alloc 4 else map toUint8 (take 4 (ipParts targetHost)))"

text \<open>
  \<open>createPacket(cmd, clientId, data, targetHost, targetPort)\<close>; \<open>data\<close> is the payload
  buffer (the callers' empty string is the empty buffer). The writes happen in the
  source's order on the zero-filled packet.
\<close>

definition createPacket ::
  "int \<Rightarrow> js_value \<Rightarrow> buffer \<Rightarrow> string \<Rightarrow> int \<Rightarrow> string \<Rightarrow> error + buffer" where
  "createPacket c clientId dataBuffer targetHost targetPort uuid =
     (let packet = alloc (1 + 16 + 4 + 2 + 4 + length dataBuffer) in
      case writeUInt8 c 0 packet of
        Inl e \<Rightarrow> Inl e
      | Inr p1 \<Rightarrow>
          (let p2 = copy (clientIdBuffer clientId uuid) p1 1;
               p3 = copy (ipBuffer targetHost) p2 17 in
           case writeUInt16BE targetPort 21 p3 of
             Inl e \<Rightarrow> Inl e
           | Inr p4 \<Rightarrow>
               (case writeUInt32BE (int (length dataBuffer)) 23 p4 of
                  Inl e \<Rightarrow> Inl e
                | Inr p5 \<Rightarrow> Inr (copy dataBuffer p5 27))))"

section \<open>The framer: PacketStream\<close>

record packet =
  cmd :: nat
  clientId :: string
  targetHost :: string
  targetPort :: nat
  data :: buffer

text \<open>The packet object built from a buffer that holds a complete frame at its start.\<close>

definition decodePacket :: "buffer \<Rightarrow> packet" where
  "decodePacket buf =
     \<lparr> cmd = readUInt8 buf 0,
       clientId = toHex (subarray buf 1 17),
       targetHost = join CHR ''.'' (map (\<lambda>b. numberToString (unat b)) (subarray buf 17 21)),
       targetPort = readUInt16BE buf 21,
       data = subarray buf 27 (27 + readUInt32BE buf 23) \<rparr>"

text \<open>
  The \<open>while\<close> loop of \<open>_transform\<close>: returns the packets emitted, in order, and the
  buffer kept.
\<close>

function packetLoop :: "buffer \<Rightarrow> packet list \<times> buffer" where
  "packetLoop buf =
     (if length buf \<ge> 27 then
        (let dataLength = readUInt32BE buf 23 in
         if length buf \<ge> 27 + dataLength then
           (let r = packetLoop (drop (27 + dataLength) buf)
            in (decodePacket buf # fst r, snd r))
         else ([], buf))
      else ([], buf))"
  by pat_completeness auto
termination
  by (relation "measure length") auto

declare packetLoop.simps [simp del]

text \<open>\<open>_transform(chunk)\<close> on a stream whose buffer is \<open>buf\<close>.\<close>

definition transform :: "buffer \<Rightarrow> buffer \<Rightarrow> packet list \<times> buffer" where
  "transform buf chunk = packetLoop (buf @ chunk)"

text \<open>A sequence of \<open>write\<close> calls, one for each chunk.\<close>

fun feed :: "buffer \<Rightarrow> buffer list \<Rightarrow> packet list \<times> buffer" where
  "feed buf [] = ([], buf)"
| "feed buf (chunk # chunks) =
     (let r = transform buf chunk; r' = feed (snd r) chunks
      in (fst r @ fst r', snd r'))"

section \<open>Frames and their round trip\<close>

text \<open>
  A frame as the wire format has it: one command byte, a 16-byte session id, a 4-byte
  IPv4 address, a 16-bit port and the payload.
\<close>

record frame =
  frame_cmd :: byte
  session_id :: buffer
  target_ip :: buffer
  target_port :: "16 word"
  payload :: buffer

definition frame_ok :: "frame \<Rightarrow> bool" where
  "frame_ok f =
     (length (session_id f) = 16 \<and> length (target_ip f) = 4
      \<and> length (payload f) \<le> 4294967295)"

text \<open>The address string of four bytes, as the framer builds it.\<close>

definition dotted :: "buffer \<Rightarrow> string" where
  "dotted ip = join CHR ''.'' (map (\<lambda>b. numberToString (unat b)) ip)"

text \<open>The packet object that stands for a frame on the receiving side.\<close>

definition packet_of :: "frame \<Rightarrow> packet" where
  "packet_of f =
     \<lparr> cmd = unat (frame_cmd f),
       clientId = toHex (session_id f),
       targetHost = dotted (target_ip f),
       targetPort = unat (target_port f),
       data = payload f \<rparr>"

text \<open>Encoding a frame: \<open>createPacket\<close> on the fields of its packet object.\<close>

definition encode :: "frame \<Rightarrow> string \<Rightarrow> error + buffer" where
  "encode f uuid =
     createPacket (int (cmd (packet_of f))) (JsString (clientId (packet_of f)))
       (data (packet_of f)) (targetHost (packet_of f)) (int (targetPort (packet_of f))) uuid"

text \<open>A buffer that does not yet hold a complete frame.\<close>

definition partial_frame :: "buffer \<Rightarrow> bool" where
  "partial_frame buf = (length buf < 27 \<or> length buf < 27 + readUInt32BE buf 23)"

definition isDigit :: "char \<Rightarrow> bool" where
  "isDigit c = (48 \<le> (of_char c :: nat) \<and> (of_char c :: nat) \<le> 57)"

text \<open>The bytes of a frame in the wire layout.\<close>

definition frame_bytes :: "frame \<Rightarrow> buffer" where
  "frame_bytes f =
     [frame_cmd f] @ session_id f @ target_ip f
       @ [of_nat (unat (target_port f) div 256), of_nat (unat (target_port f))]
       @ [of_nat (length (payload f) div 16777216), of_nat (length (payload f) div 65536),
          of_nat (length (payload f) div 256), of_nat (length (payload f))]
       @ payload f"

text \<open>
  The strings that \<open>crypto.randomUUID()\<close> returns: five groups of 8, 4, 4, 4 and 12
  lower-case hex digits, separated by hyphens.
\<close>

definition isLowerHex :: "char \<Rightarrow> bool" where
  "isLowerHex c = (c \<in> set ''0123456789abcdef'')"

definition isUUID :: "string \<Rightarrow> bool" where
  "isUUID u =
     (map length (split CHR ''-'' u) = [8, 4, 4, 4, 12]
      \<and> list_all (list_all isLowerHex) (split CHR ''-'' u))"

section \<open>The two processes\<close>

text \<open>
  Each side is an event-driven process: a handler runs to completion on the state, then
  the next event is taken. \<open>tcp-server.js\<close> is the ingress side, \<open>tcp-client.js\<close> the
  egress side.
\<close>

subsection \<open>JavaScript maps\<close>

text \<open>A \<open>Map\<close> is an association list in insertion order.\<close>

definition map_has :: "('k \<times> 'v) list \<Rightarrow> 'k \<Rightarrow> bool" where
  "map_has m k = (map_of m k \<noteq> None)"

fun map_set :: "('k \<times> 'v) list \<Rightarrow> 'k \<Rightarrow> 'v \<Rightarrow> ('k \<times> 'v) list" where
  "map_set [] k v = [(k, v)]"
| "map_set ((k', v') # m) k v =
     (if k' = k then (k, v) # m else (k', v') # map_set m k v)"

definition map_delete :: "('k \<times> 'v) list \<Rightarrow> 'k \<Rightarrow> ('k \<times> 'v) list" where
  "map_delete m k = filter (\<lambda>kv. fst kv \<noteq> k) m"

subsection \<open>What both sides share\<close>

text \<open>
  The outcome of the bounded waits of a shutdown, and the value that
  \<open>crypto.randomUUID()\<close> returns inside \<open>createPacket\<close> and \<open>gracefulShutdown\<close>, are
  parameters of a run. \<open>socketCloses h\<close> says that socket \<open>h\<close>, once ended by the
  shutdown, emits \<open>close\<close> before its 3 second timer fires. A socket whose timer fires
  first is destroyed; \<open>closesLate h\<close> says that it then emits \<open>close\<close> while the
  sequence is still running, before the serial port is closed. \<open>closeRank\<close> gives the
  order of these \<open>close\<close> events. \<open>serialCloses\<close> says that the serial port closes
  before its 3 second timer fires.
\<close>

record environment =
  socketCloses :: "nat \<Rightarrow> bool"
  closesLate :: "nat \<Rightarrow> bool"
  closeRank :: "nat \<Rightarrow> nat"
  serialCloses :: bool
  randomUUID :: string

text \<open>
  What happens while \<open>gracefulShutdown\<close> awaits the sockets it has ended: a socket emits
  \<open>close\<close>, or the timer of a socket fires.
\<close>

datatype wait_event = Closes nat | Expires nat

text \<open>
  The events of the wait for the sockets \<open>hs\<close> (in the order in which \<open>forEach\<close> ended
  them): first the \<open>close\<close> events of the sockets that close in time, then the timers of
  the others, then the \<open>close\<close> events of the destroyed sockets that close late. A
  socket emits \<open>close\<close> once.
\<close>

definition waitEvents :: "environment \<Rightarrow> nat list \<Rightarrow> wait_event list" where
  "waitEvents e hs =
     map Closes (sort_key (closeRank e) (remdups (filter (socketCloses e) hs)))
     @ map Expires (filter (\<lambda>h. \<not> socketCloses e h) hs)
     @ map Closes (sort_key (closeRank e)
         (remdups (filter (\<lambda>h. \<not> socketCloses e h \<and> closesLate e h) hs)))"

text \<open>
  \<open>wire\<close> lists the packets handed to \<open>serialPort.write\<close>, in order; \<open>streamBuffer\<close> is
  the buffer of the \<open>PacketStream\<close>; \<open>exitCode\<close> is set by \<open>process.exit\<close>.
\<close>

record process =
  serialOpen :: bool
  wire :: "buffer list"
  streamBuffer :: buffer
  exitCode :: "int option"
  env :: environment

text \<open>\<open>serialPort.write(packet)\<close>.\<close>

definition serialWrite :: "buffer \<Rightarrow> ('a process_scheme) \<Rightarrow> ('a process_scheme)" where
  "serialWrite packet s = s\<lparr>wire := wire s @ [packet]\<rparr>"

text \<open>
  Step 5 of both \<open>gracefulShutdown\<close> functions: the serial port is closed under a timer
  that only logs when it fires.
\<close>

definition closeSerial :: "('a process_scheme) \<Rightarrow> ('a process_scheme)" where
  "closeSerial s =
     (if serialOpen s \<and> serialCloses (env s) then s\<lparr>serialOpen := False\<rparr> else s)"

section \<open>The egress side (tcp-client.js)\<close>

datatype dial = Connecting | Established | Failed

text \<open>
  A socket made by \<open>createTargetConnection\<close>. \<open>sk_clientId\<close>, \<open>sk_targetHost\<close> and
  \<open>sk_targetPort\<close> are the variables its handlers close over, \<open>sk_data\<close> the payload that
  the \<open>then\<close> callback of \<open>handlePacket\<close> will write. \<open>written\<close> lists the buffers
  passed to \<open>socket.write\<close>; \<open>ended\<close> records \<open>socket.end()\<close>; \<open>closed\<close> says that the
  \<open>close\<close> event has been emitted.
\<close>

record target_socket =
  sk_clientId :: string
  sk_targetHost :: string
  sk_targetPort :: nat
  sk_data :: buffer
  sk_dial :: dial
  written :: "buffer list"
  ended :: bool
  destroyed :: bool
  closed :: bool

text \<open>The \<open>clientInfo\<close> object; \<open>client_socket\<close> is the handle of its socket.\<close>

record client =
  client_id :: string
  client_socket :: nat
  connected :: bool
  client_targetHost :: string
  client_targetPort :: nat

record egress = process +
  clients :: "(string \<times> client) list"
  targetSockets :: "target_socket list"

text \<open>
  Every port of a socket fits the 16-bit field of a frame. The ports of the sockets are
  read from frames, so this holds of every running egress process.
\<close>

definition portsInRange :: "egress \<Rightarrow> bool" where
  "portsInRange s = list_all (\<lambda>k. sk_targetPort k \<le> 65535) (targetSockets s)"

text \<open>
  The events of the process: a chunk from the serial port, the events of the target
  socket with handle \<open>h\<close> (\<open>connect\<close>, \<open>data\<close>, \<open>close\<close>, \<open>error\<close>), and \<open>SIGINT\<close> or
  \<open>SIGTERM\<close>. Each handler runs to completion before the next event.
\<close>

datatype egress_event =
    SerialData buffer
  | Connected nat
  | TargetData nat buffer
  | TargetClose nat
  | TargetError nat
  | Signal

text \<open>\<open>socket.write(data)\<close> and \<open>socket.end()\<close> on handle \<open>h\<close>.\<close>

definition socketWrite :: "nat \<Rightarrow> buffer \<Rightarrow> egress \<Rightarrow> egress" where
  "socketWrite h d s =
     s\<lparr>targetSockets := (targetSockets s)
          [h := (targetSockets s ! h)\<lparr>written := written (targetSockets s ! h) @ [d]\<rparr>]\<rparr>"

definition socketEnd :: "nat \<Rightarrow> egress \<Rightarrow> egress" where
  "socketEnd h s =
     s\<lparr>targetSockets := (targetSockets s)[h := (targetSockets s ! h)\<lparr>ended := True\<rparr>]\<rparr>"

text \<open>
  \<open>createTargetConnection\<close>: a new socket whose connect is in flight. Nothing is entered
  in \<open>clients\<close> before the connect callback runs.
\<close>

definition createTargetConnection :: "string \<Rightarrow> string \<Rightarrow> nat \<Rightarrow> buffer \<Rightarrow> egress \<Rightarrow> egress" where
  "createTargetConnection cid host port d s =
     s\<lparr>targetSockets := targetSockets s @
          [\<lparr>sk_clientId = cid, sk_targetHost = host, sk_targetPort = port, sk_data = d,
            sk_dial = Connecting, written = [], ended = False, destroyed = False,
            closed = False\<rparr>]\<rparr>"

definition handlePacket :: "packet \<Rightarrow> egress \<Rightarrow> egress" where
  "handlePacket p s =
     (if int (cmd p) = CMD_DATA then
        (case map_of (clients s) (clientId p) of
           Some c \<Rightarrow> if connected c then socketWrite (client_socket c) (data p) s else s
         | None \<Rightarrow> createTargetConnection (clientId p) (targetHost p) (targetPort p) (data p) s)
      else if int (cmd p) = CMD_DISCONNECT then
        (case map_of (clients s) (clientId p) of
           Some c \<Rightarrow> (socketEnd (client_socket c) s)\<lparr>clients := map_delete (clients s) (clientId p)\<rparr>
         | None \<Rightarrow> s)
      else s)"

text \<open>The \<open>packet\<close> listener, called once for each packet the framer emits.\<close>

definition egress_serialData :: "buffer \<Rightarrow> egress \<Rightarrow> egress" where
  "egress_serialData chunk s =
     (let r = transform (streamBuffer s) chunk
      in foldl (\<lambda>t p. handlePacket p t) (s\<lparr>streamBuffer := snd r\<rparr>) (fst r))"

text \<open>
  A socket is destroyed when it emits \<open>error\<close>, when it emits \<open>close\<close> and by
  \<open>socket.destroy()\<close>.
\<close>

definition setDial :: "nat \<Rightarrow> dial \<Rightarrow> egress \<Rightarrow> egress" where
  "setDial h d s =
     s\<lparr>targetSockets := (targetSockets s)[h := (targetSockets s ! h)\<lparr>sk_dial := d\<rparr>]\<rparr>"

definition markDestroyed :: "nat \<Rightarrow> egress \<Rightarrow> egress" where
  "markDestroyed h s =
     s\<lparr>targetSockets := (targetSockets s)
          [h := (targetSockets s ! h)\<lparr>destroyed := True\<rparr>]\<rparr>"

definition markClosed :: "nat \<Rightarrow> egress \<Rightarrow> egress" where
  "markClosed h s =
     s\<lparr>targetSockets := (targetSockets s)
          [h := (targetSockets s ! h)\<lparr>destroyed := True, closed := True\<rparr>]\<rparr>"

text \<open>
  Step 2 of \<open>gracefulShutdown\<close>: one Disconnect for each entry of \<open>clients\<close>. An
  exception of \<open>createPacket\<close> leaves the loop: the result says whether one was thrown.
\<close>

fun notifyClients :: "(string \<times> client) list \<Rightarrow> egress \<Rightarrow> bool \<times> egress" where
  "notifyClients [] s = (False, s)"
| "notifyClients ((uuid, c) # rest) s =
     (if serialOpen s then
        (case createPacket CMD_DISCONNECT (JsString uuid) [] (client_targetHost c)
                (int (client_targetPort c)) (randomUUID (env s)) of
           Inl e \<Rightarrow> (True, s)
         | Inr packet \<Rightarrow> notifyClients rest (serialWrite packet s))
      else notifyClients rest s)"

text \<open>
  Step 3, the loop: every socket in \<open>clients\<close> that is not destroyed gets a 3 second
  timer and a \<open>once('close')\<close> listener, and is ended. \<open>waitedTargets\<close> lists the handles
  of these sockets.
\<close>

definition waitedTargets :: "egress \<Rightarrow> nat list" where
  "waitedTargets s =
     map (\<lambda>uc. client_socket (snd uc))
       (filter (\<lambda>uc. \<not> destroyed (targetSockets s ! client_socket (snd uc))) (clients s))"

definition endTargets :: "nat list \<Rightarrow> egress \<Rightarrow> egress" where
  "endTargets hs s = foldl (\<lambda>t h. socketEnd h t) s hs"

text \<open>
  \<open>gracefulShutdown\<close>, from its first statement to \<open>process.exit\<close>, and what happens
  while it awaits the sockets (\<open>awaitTargets\<close>). A socket that emits \<open>close\<close> runs the
  \<open>close\<close> listener that the connect callback registered (it deletes the client and,
  with the serial port open, writes a Disconnect) before the \<open>once('close')\<close> listener
  of the shutdown; a timer that fires destroys its socket. An exception of
  \<open>createPacket\<close> in the \<open>close\<close> listener reaches the \<open>uncaughtException\<close> handler,
  which calls \<open>gracefulShutdown\<close> again: \<open>awaitTargets\<close> returns \<open>True\<close> when that call
  has ended the process. Other events that arrive while the function is suspended at an
  \<open>await\<close> are not part of it.
\<close>

function egress_gracefulShutdown :: "egress \<Rightarrow> egress"
  and awaitTargets :: "wait_event list \<Rightarrow> egress \<Rightarrow> bool \<times> egress" where
  "egress_gracefulShutdown s =
     (case (if serialOpen s then
              (case createPacket CMD_PROGRAM_CLOSE (JsString (removeHyphens (randomUUID (env s))))
                      [] [] 0 (randomUUID (env s)) of
                 Inl e \<Rightarrow> Inl e
               | Inr programClosePacket \<Rightarrow> Inr (serialWrite programClosePacket s))
            else Inr s) of
        Inl e \<Rightarrow> s\<lparr>exitCode := Some 1\<rparr>
      | Inr s1 \<Rightarrow>
          (let r = notifyClients (clients s1) s1; s2 = snd r in
           if fst r then s2\<lparr>exitCode := Some 1\<rparr>
           else
             (let hs = waitedTargets s2;
                  w = awaitTargets (waitEvents (env s2) hs) (endTargets hs s2)
              in if fst w then snd w
                 else (closeSerial ((snd w)\<lparr>clients := []\<rparr>))\<lparr>exitCode := Some 0\<rparr>)))"
| "awaitTargets [] s = (False, s)"
| "awaitTargets (Expires h # evs) s = awaitTargets evs (markDestroyed h s)"
| "awaitTargets (Closes h # evs) s =
     (if h < length (targetSockets s) \<and> \<not> closed (targetSockets s ! h) then
        (if sk_dial (targetSockets s ! h) = Established then
           (let k = targetSockets s ! h;
                s1 = (markClosed h s)\<lparr>clients := map_delete (clients s) (sk_clientId k)\<rparr>
            in if serialOpen s1 then
                 (case createPacket CMD_DISCONNECT (JsString (sk_clientId k)) []
                         (sk_targetHost k) (int (sk_targetPort k)) (randomUUID (env s1)) of
                    Inl e \<Rightarrow> (True, egress_gracefulShutdown s1)
                  | Inr packet \<Rightarrow> awaitTargets evs (serialWrite packet s1))
               else awaitTargets evs s1)
         else awaitTargets evs (markClosed h s))
      else awaitTargets evs s)"
  by pat_completeness auto
termination
proof -
  define m where "m = (\<lambda>s :: egress. length (filter (\<lambda>k. \<not> closed k) (targetSockets s)))"
  have upd: "length (filter (\<lambda>k. \<not> closed k) (xs[h := y]))
               < length (filter (\<lambda>k. \<not> closed k) xs)"
    if "h < length xs" "\<not> closed (xs ! h)" "closed y" for xs :: "target_socket list" and h y
  proof -
    have "xs = take h xs @ xs ! h # drop (Suc h) xs" using that(1) by (rule id_take_nth_drop)
    then have "length (filter (\<lambda>k. \<not> closed k) xs)
                 = length (filter (\<lambda>k. \<not> closed k) (take h xs @ xs ! h # drop (Suc h) xs))"
      by simp
    moreover have "xs[h := y] = take h xs @ y # drop (Suc h) xs"
      using that(1) by (rule upd_conv_take_nth_drop)
    ultimately show ?thesis using that(2,3) by simp
  qed
  have same: "length (filter (\<lambda>k. \<not> closed k) (xs[h := y]))
                = length (filter (\<lambda>k. \<not> closed k) xs)"
    if "closed y = closed (xs ! h)" for xs :: "target_socket list" and h y
  proof (cases "h < length xs")
    case True
    have "xs = take h xs @ xs ! h # drop (Suc h) xs" using True by (rule id_take_nth_drop)
    then have "length (filter (\<lambda>k. \<not> closed k) xs)
                 = length (filter (\<lambda>k. \<not> closed k) (take h xs @ xs ! h # drop (Suc h) xs))"
      by simp
    moreover have "xs[h := y] = take h xs @ y # drop (Suc h) xs"
      using True by (rule upd_conv_take_nth_drop)
    ultimately show ?thesis using that by simp
  next
    case False
    then have "xs[h := y] = xs" by (simp add: list_update_beyond)
    then show ?thesis by simp
  qed
  have closes: "m (markClosed h s) < m s"
    if "h < length (targetSockets s)" "\<not> closed (targetSockets s ! h)" for h s
    using that by (simp add: m_def markClosed_def upd)
  have destroys: "m (markDestroyed h s) = m s" for h s
    by (simp add: m_def markDestroyed_def same)
  have ends: "m (endTargets hs s) = m s" for hs s
    unfolding endTargets_def
    by (induction hs arbitrary: s) (simp_all add: m_def socketEnd_def same)
  have notifies: "m (snd (notifyClients cs s)) = m s" for cs s
    by (induction cs s rule: notifyClients.induct)
       (simp_all add: m_def serialWrite_def split: sum.splits)
  have first: "m b = m s"
    if "(if serialOpen s
         then case createPacket CMD_PROGRAM_CLOSE (JsString (removeHyphens (randomUUID (env s))))
                     [] [] 0 (randomUUID (env s)) of
                Inl x \<Rightarrow> Inl x
              | Inr programClosePacket \<Rightarrow> Inr (serialWrite programClosePacket s)
         else Inr s) = Inr b" for s b
    using that by (auto simp add: m_def serialWrite_def split: if_splits sum.splits)
  have keeps: "m (s\<lparr>clients := c\<rparr>) = m s" "m (serialWrite b s) = m s" for s c b
    by (simp_all add: m_def serialWrite_def)
  show ?thesis
    apply (relation "measures [
      (\<lambda>x. case x of Inl s \<Rightarrow> m s | Inr (evs, s) \<Rightarrow> m s),
      (\<lambda>x. case x of Inl s \<Rightarrow> 1 | Inr (evs, s) \<Rightarrow> 0),
      (\<lambda>x. case x of Inl s \<Rightarrow> 0 | Inr (evs, s) \<Rightarrow> length evs)]")
          apply simp
         apply (simp add: first ends notifies)
        apply (simp add: destroys)
       apply (simp add: closes keeps)
      apply (simp add: closes keeps)
     apply (simp add: closes keeps)
    apply (simp add: closes)
    apply simp
    done
qed

declare egress_gracefulShutdown.simps [simp del]
declare awaitTargets.simps [simp del]


text \<open>The connect callback of socket \<open>h\<close>, then the \<open>then\<close> callback of \<open>handlePacket\<close>.\<close>

definition egress_connected :: "nat \<Rightarrow> egress \<Rightarrow> egress" where
  "egress_connected h s =
     (let k = targetSockets s ! h;
          clientInfo = \<lparr>client_id = sk_clientId k, client_socket = h, connected = True,
                        client_targetHost = sk_targetHost k,
                        client_targetPort = sk_targetPort k\<rparr>;
          s1 = s\<lparr>clients := map_set (clients s) (sk_clientId k) clientInfo,
                 targetSockets := (targetSockets s)[h := k\<lparr>sk_dial := Established\<rparr>]\<rparr>
      in socketWrite h (sk_data k) s1)"

text \<open>
  The \<open>data\<close> handler of a connected socket. An exception of \<open>createPacket\<close> reaches
  the \<open>uncaughtException\<close> handler, which calls \<open>gracefulShutdown\<close>.
\<close>

definition egress_targetData :: "nat \<Rightarrow> buffer \<Rightarrow> egress \<Rightarrow> egress" where
  "egress_targetData h d s =
     (let k = targetSockets s ! h in
      if serialOpen s then
        (case createPacket CMD_DATA (JsString (sk_clientId k)) d (sk_targetHost k)
                (int (sk_targetPort k)) (randomUUID (env s)) of
           Inl e \<Rightarrow> egress_gracefulShutdown s
         | Inr packet \<Rightarrow> serialWrite packet s)
      else s)"

text \<open>The \<open>close\<close> handler of a connected socket.\<close>

definition egress_targetClose :: "nat \<Rightarrow> egress \<Rightarrow> egress" where
  "egress_targetClose h s =
     (let k = targetSockets s ! h;
          s1 = s\<lparr>clients := map_delete (clients s) (sk_clientId k)\<rparr>
      in if serialOpen s1 then
           (case createPacket CMD_DISCONNECT (JsString (sk_clientId k)) [] (sk_targetHost k)
                   (int (sk_targetPort k)) (randomUUID (env s1)) of
              Inl e \<Rightarrow> egress_gracefulShutdown s1
            | Inr packet \<Rightarrow> serialWrite packet s1)
         else s1)"

text \<open>
  One event. A process that has exited takes no more events. \<open>Connected\<close> and
  \<open>TargetError\<close> on a socket whose connect is in flight settle the dial: on an error the
  promise is rejected and the \<open>catch\<close> callback only logs. A socket emits \<open>close\<close>
  once; only a connected socket has \<open>data\<close> and \<open>close\<close> handlers.
\<close>

fun egress_step :: "egress \<Rightarrow> egress_event \<Rightarrow> egress" where
  "egress_step s ev =
     (if exitCode s \<noteq> None then s
      else case ev of
        SerialData chunk \<Rightarrow> egress_serialData chunk s
      | Connected h \<Rightarrow>
          if h < length (targetSockets s) \<and> sk_dial (targetSockets s ! h) = Connecting
             \<and> \<not> closed (targetSockets s ! h)
          then egress_connected h s else s
      | TargetError h \<Rightarrow>
          if h < length (targetSockets s) \<and> \<not> closed (targetSockets s ! h) then
            (case sk_dial (targetSockets s ! h) of
               Connecting \<Rightarrow> setDial h Failed (markDestroyed h s)
             | Established \<Rightarrow>
                 (markDestroyed h s)
                   \<lparr>clients := map_delete (clients s) (sk_clientId (targetSockets s ! h))\<rparr>
             | Failed \<Rightarrow> s)
          else s
      | TargetData h d \<Rightarrow>
          if h < length (targetSockets s) \<and> sk_dial (targetSockets s ! h) = Established
             \<and> \<not> closed (targetSockets s ! h)
          then egress_targetData h d s else s
      | TargetClose h \<Rightarrow>
          if h < length (targetSockets s) \<and> \<not> closed (targetSockets s ! h) then
            (if sk_dial (targetSockets s ! h) = Established
             then egress_targetClose h (markClosed h s) else markClosed h s)
          else s
      | Signal \<Rightarrow> egress_gracefulShutdown s)"

declare egress_step.simps [simp del]

definition egress_run :: "egress \<Rightarrow> egress_event list \<Rightarrow> egress" where
  "egress_run s evs = foldl egress_step s evs"

text \<open>The egress process after start-up, with the serial port open.\<close>

definition egress_init :: "environment \<Rightarrow> egress" where
  "egress_init e =
     \<lparr>serialOpen = True, wire = [], streamBuffer = [], exitCode = None, env = e,
      clients = [], targetSockets = []\<rparr>"

section \<open>The ingress side (tcp-server.js)\<close>

text \<open>An entry of \<open>portMappings\<close> (the description is only logged).\<close>

record mapping =
  localPort :: nat
  remoteHost :: string
  remotePort :: int

text \<open>
  A socket accepted by a listener. \<open>ck_clientId\<close> and \<open>ck_mapping\<close> are the variables
  its handlers close over and the fields of its \<open>clientInfo\<close> object.
\<close>

record client_socket_state =
  ck_clientId :: string
  ck_mapping :: mapping
  ck_written :: "buffer list"
  ck_ended :: bool
  ck_destroyed :: bool
  ck_closed :: bool

text \<open>
  The keys of \<open>clientsByPort\<close> are port numbers; the code also looks a client id
  (a string) up in it. A number and a string are never the same key.
\<close>

datatype map_key = NumberKey nat | StringKey string

text \<open>
  \<open>clientsByPort\<close> maps a port to the map of its clients; a client is entered as its
  id with the handle of its socket. \<open>immediates\<close> counts the \<open>gracefulShutdown\<close> calls
  queued by \<open>setImmediate\<close>; \<open>listening\<close> says that the listeners are open.
\<close>

record ingress = process +
  portMappings :: "mapping list"
  clientsByPort :: "(map_key \<times> (string \<times> nat) list) list"
  clientSockets :: "client_socket_state list"
  listening :: bool
  immediates :: nat

text \<open>
  The events of the process: a connection accepted by the listener of mapping \<open>i\<close>
  (with the id that \<open>crypto.randomUUID()\<close> gives it), the events of the client socket
  with handle \<open>h\<close> (\<open>data\<close>, \<open>close\<close>, \<open>error\<close>), a chunk from the serial port, a callback
  queued by \<open>setImmediate\<close>, and \<open>SIGINT\<close> or \<open>SIGTERM\<close>.
\<close>

datatype ingress_event =
    Connection nat string
  | ClientData nat buffer
  | ClientClose nat
  | ClientError nat
  | UartData buffer
  | Immediate
  | Interrupt

definition clientWrite :: "nat \<Rightarrow> buffer \<Rightarrow> ingress \<Rightarrow> ingress" where
  "clientWrite h d s =
     s\<lparr>clientSockets := (clientSockets s)
          [h := (clientSockets s ! h)\<lparr>ck_written := ck_written (clientSockets s ! h) @ [d]\<rparr>]\<rparr>"

definition clientEnd :: "nat \<Rightarrow> ingress \<Rightarrow> ingress" where
  "clientEnd h s =
     s\<lparr>clientSockets := (clientSockets s)[h := (clientSockets s ! h)\<lparr>ck_ended := True\<rparr>]\<rparr>"

text \<open>
  The loop of the Disconnect case: in every client map that has the id, the socket is
  ended unless it is destroyed.
\<close>

fun endClient :: "string \<Rightarrow> (map_key \<times> (string \<times> nat) list) list \<Rightarrow> ingress \<Rightarrow> ingress" where
  "endClient cid [] s = s"
| "endClient cid ((port, cs) # rest) s =
     endClient cid rest
       (case map_of cs cid of
          None \<Rightarrow> s
        | Some h \<Rightarrow> if ck_destroyed (clientSockets s ! h) then s else clientEnd h s)"

text \<open>The loop of the Data case: the client of the first client map that has the id.\<close>

fun findClient :: "string \<Rightarrow> (map_key \<times> (string \<times> nat) list) list \<Rightarrow> nat option" where
  "findClient cid [] = None"
| "findClient cid ((port, cs) # rest) =
     (case map_of cs cid of None \<Rightarrow> findClient cid rest | Some h \<Rightarrow> Some h)"

definition handleResponsePacket :: "packet \<Rightarrow> ingress \<Rightarrow> ingress" where
  "handleResponsePacket p s =
     (if int (cmd p) = CMD_DATA then
        (case findClient (clientId p) (clientsByPort s) of
           Some h \<Rightarrow> if ck_destroyed (clientSockets s ! h) then s else clientWrite h (data p) s
         | None \<Rightarrow> s)
      else if int (cmd p) = CMD_DISCONNECT then
        (let s1 = endClient (clientId p) (clientsByPort s) s in
         case map_of (clientsByPort s1) (StringKey (clientId p)) of
           Some cs \<Rightarrow>
             s1\<lparr>clientsByPort :=
                  map_set (clientsByPort s1) (StringKey (clientId p)) (map_delete cs (clientId p))\<rparr>
         | None \<Rightarrow> s1)
      else if int (cmd p) = CMD_PROGRAM_CLOSE then
        s\<lparr>immediates := immediates s + 1\<rparr>
      else s)"

text \<open>
  Step 1 of \<open>gracefulShutdown\<close>: for each client, in the order of \<open>forEach\<close>, the
  promise executor builds and writes a Disconnect. An exception of \<open>createPacket\<close>
  rejects that promise only; the result says whether some promise was rejected.
\<close>

fun disconnectAll :: "(string \<times> nat) list \<Rightarrow> ingress \<Rightarrow> bool \<times> ingress" where
  "disconnectAll [] s = (False, s)"
| "disconnectAll ((cid, h) # rest) s =
     (case createPacket CMD_DISCONNECT (JsString cid) []
             (remoteHost (ck_mapping (clientSockets s ! h)))
             (remotePort (ck_mapping (clientSockets s ! h))) (randomUUID (env s)) of
        Inl e \<Rightarrow> (True, snd (disconnectAll rest s))
      | Inr packet \<Rightarrow> disconnectAll rest (serialWrite packet s))"

text \<open>
  A socket is destroyed when it emits \<open>error\<close>, when it emits \<open>close\<close> and by
  \<open>socket.destroy()\<close>.
\<close>

definition markClientClosed :: "nat \<Rightarrow> ingress \<Rightarrow> ingress" where
  "markClientClosed h s =
     s\<lparr>clientSockets := (clientSockets s)
          [h := (clientSockets s ! h)\<lparr>ck_destroyed := True, ck_closed := True\<rparr>]\<rparr>"

definition markClientDestroyed :: "nat \<Rightarrow> ingress \<Rightarrow> ingress" where
  "markClientDestroyed h s =
     s\<lparr>clientSockets := (clientSockets s)
          [h := (clientSockets s ! h)\<lparr>ck_destroyed := True\<rparr>]\<rparr>"

text \<open>
  Step 2, the loop: every client socket that is not destroyed gets a 3 second timer and
  a \<open>once('close')\<close> listener, and is ended. \<open>waitedClients\<close> lists the handles of
  these sockets.
\<close>

definition waitedClients :: "(string \<times> nat) list \<Rightarrow> ingress \<Rightarrow> nat list" where
  "waitedClients everyone s =
     map snd (filter (\<lambda>ch. \<not> ck_destroyed (clientSockets s ! snd ch)) everyone)"

definition endClients :: "nat list \<Rightarrow> ingress \<Rightarrow> ingress" where
  "endClients hs s = foldl (\<lambda>t h. clientEnd h t) s hs"

text \<open>
  \<open>gracefulShutdown\<close>, from its first statement to \<open>process.exit\<close>, and what happens
  while it awaits the sockets (\<open>awaitClients\<close>). A socket that emits \<open>close\<close> runs the
  \<open>close\<close> listener that the connection listener registered (it deletes the client and,
  with the serial port open, writes a Disconnect) before the \<open>once('close')\<close> listener
  of the shutdown; a timer that fires destroys its socket. An exception of
  \<open>createPacket\<close> in the \<open>close\<close> listener reaches the \<open>uncaughtException\<close> handler,
  which calls \<open>gracefulShutdown\<close> again: \<open>awaitClients\<close> returns \<open>True\<close> when that call
  has ended the process. Other events that arrive while the function is suspended at an
  \<open>await\<close> are not part of it. The sequence itself writes no packet other than the
  Disconnects of step 1.
\<close>

function ingress_gracefulShutdown :: "ingress \<Rightarrow> ingress"
  and awaitClients :: "wait_event list \<Rightarrow> ingress \<Rightarrow> bool \<times> ingress" where
  "ingress_gracefulShutdown s =
     (let everyone = concat (map snd (clientsByPort s));
          r = (if serialOpen s then disconnectAll everyone s else (False, s));
          s1 = snd r
      in if fst r then s1\<lparr>exitCode := Some 1\<rparr>
         else
           (let hs = waitedClients everyone s1;
                w = awaitClients (waitEvents (env s1) hs) (endClients hs s1)
            in if fst w then snd w
               else (closeSerial ((snd w)\<lparr>clientsByPort := [], listening := False\<rparr>))
                      \<lparr>exitCode := Some 0\<rparr>))"
| "awaitClients [] s = (False, s)"
| "awaitClients (Expires h # evs) s = awaitClients evs (markClientDestroyed h s)"
| "awaitClients (Closes h # evs) s =
     (if h < length (clientSockets s) \<and> \<not> ck_closed (clientSockets s ! h) then
        (let k = clientSockets s ! h;
             key = NumberKey (localPort (ck_mapping k));
             m = markClientClosed h s;
             s1 = (case map_of (clientsByPort m) key of
                     Some cs \<Rightarrow>
                       m\<lparr>clientsByPort :=
                           map_set (clientsByPort m) key (map_delete cs (ck_clientId k))\<rparr>
                   | None \<Rightarrow> m)
         in if serialOpen s1 then
              (case createPacket CMD_DISCONNECT (JsString (ck_clientId k)) []
                      (remoteHost (ck_mapping k)) (remotePort (ck_mapping k))
                      (randomUUID (env s1)) of
                 Inl e \<Rightarrow> (True, ingress_gracefulShutdown s1)
               | Inr packet \<Rightarrow> awaitClients evs (serialWrite packet s1))
            else awaitClients evs s1)
      else awaitClients evs s)"
  by pat_completeness auto

termination
proof -
  define m where
    "m = (\<lambda>s :: ingress. length (filter (\<lambda>k. \<not> ck_closed k) (clientSockets s)))"
  have upd: "length (filter (\<lambda>k. \<not> ck_closed k) (xs[h := y]))
               < length (filter (\<lambda>k. \<not> ck_closed k) xs)"
    if "h < length xs" "\<not> ck_closed (xs ! h)" "ck_closed y"
    for xs :: "client_socket_state list" and h y
  proof -
    have "xs = take h xs @ xs ! h # drop (Suc h) xs" using that(1) by (rule id_take_nth_drop)
    then have "length (filter (\<lambda>k. \<not> ck_closed k) xs)
                 = length (filter (\<lambda>k. \<not> ck_closed k) (take h xs @ xs ! h # drop (Suc h) xs))"
      by simp
    moreover have "xs[h := y] = take h xs @ y # drop (Suc h) xs"
      using that(1) by (rule upd_conv_take_nth_drop)
    ultimately show ?thesis using that(2,3) by simp
  qed
  have same: "length (filter (\<lambda>k. \<not> ck_closed k) (xs[h := y]))
                = length (filter (\<lambda>k. \<not> ck_closed k) xs)"
    if "ck_closed y = ck_closed (xs ! h)" for xs :: "client_socket_state list" and h y
  proof (cases "h < length xs")
    case True
    have "xs = take h xs @ xs ! h # drop (Suc h) xs" using True by (rule id_take_nth_drop)
    then have "length (filter (\<lambda>k. \<not> ck_closed k) xs)
                 = length (filter (\<lambda>k. \<not> ck_closed k) (take h xs @ xs ! h # drop (Suc h) xs))"
      by simp
    moreover have "xs[h := y] = take h xs @ y # drop (Suc h) xs"
      using True by (rule upd_conv_take_nth_drop)
    ultimately show ?thesis using that by simp
  next
    case False
    then have "xs[h := y] = xs" by (simp add: list_update_beyond)
    then show ?thesis by simp
  qed
  have closes: "m (markClientClosed h s) < m s"
    if "h < length (clientSockets s)" "\<not> ck_closed (clientSockets s ! h)" for h s
    using that by (simp add: m_def markClientClosed_def upd)
  have destroys: "m (markClientDestroyed h s) = m s" for h s
    by (simp add: m_def markClientDestroyed_def same)
  have ends: "m (endClients hs s) = m s" for hs s
    unfolding endClients_def
    by (induction hs arbitrary: s) (simp_all add: m_def clientEnd_def same)
  have disconnects: "m (snd (disconnectAll cs s)) = m s" for cs s
    by (induction cs s rule: disconnectAll.induct)
       (simp_all add: m_def serialWrite_def split: sum.splits)
  have keeps: "m (s\<lparr>clientsByPort := c\<rparr>) = m s" "m (serialWrite b s) = m s" for s c b
    by (simp_all add: m_def serialWrite_def)
  have forgets: "m (case x of Some cs \<Rightarrow> s\<lparr>clientsByPort := f cs\<rparr> | None \<Rightarrow> s) = m s"
    for x :: "(string \<times> nat) list option" and s f
    by (cases x) (simp_all add: keeps)
  show ?thesis
    apply (relation "measures [
      (\<lambda>x. case x of Inl s \<Rightarrow> m s | Inr (evs, s) \<Rightarrow> m s),
      (\<lambda>x. case x of Inl s \<Rightarrow> 1 | Inr (evs, s) \<Rightarrow> 0),
      (\<lambda>x. case x of Inl s \<Rightarrow> 0 | Inr (evs, s) \<Rightarrow> length evs)]")
          apply simp
         apply (simp add: ends disconnects)
        apply (simp add: destroys)
       apply (simp add: closes keeps forgets)
      apply (simp add: closes keeps forgets)
     apply (simp add: closes keeps forgets)
    apply simp
    done
qed

declare ingress_gracefulShutdown.simps [simp del]
declare awaitClients.simps [simp del]

text \<open>
  The \<open>connection\<close> listener of the server of mapping \<open>i\<close>; \<open>uuid\<close> is what
  \<open>crypto.randomUUID()\<close> returns. The new socket gets the next handle.
\<close>

definition ingress_connection :: "nat \<Rightarrow> string \<Rightarrow> ingress \<Rightarrow> ingress" where
  "ingress_connection i uuid s =
     (let m = portMappings s ! i;
          cid = removeHyphens uuid;
          h = length (clientSockets s);
          key = NumberKey (localPort m);
          byPort = (if map_has (clientsByPort s) key then clientsByPort s
                    else map_set (clientsByPort s) key []);
          cs = (case map_of byPort key of Some cs \<Rightarrow> cs | None \<Rightarrow> [])
      in s\<lparr>clientsByPort := map_set byPort key (map_set cs cid h),
           clientSockets := clientSockets s @
             [\<lparr>ck_clientId = cid, ck_mapping = m, ck_written = [], ck_ended = False,
               ck_destroyed = False, ck_closed = False\<rparr>]\<rparr>)"

text \<open>
  The \<open>data\<close> handler of a client socket. An exception of \<open>createPacket\<close> reaches the
  \<open>uncaughtException\<close> handler, which calls \<open>gracefulShutdown\<close>.
\<close>

definition ingress_clientData :: "nat \<Rightarrow> buffer \<Rightarrow> ingress \<Rightarrow> ingress" where
  "ingress_clientData h d s =
     (let k = clientSockets s ! h in
      if serialOpen s then
        (case createPacket CMD_DATA (JsString (ck_clientId k)) d (remoteHost (ck_mapping k))
                (remotePort (ck_mapping k)) (randomUUID (env s)) of
           Inl e \<Rightarrow> ingress_gracefulShutdown s
         | Inr packet \<Rightarrow> serialWrite packet s)
      else s)"

text \<open>The \<open>close\<close> handler of a client socket.\<close>

definition ingress_clientClose :: "nat \<Rightarrow> ingress \<Rightarrow> ingress" where
  "ingress_clientClose h s =
     (let k = clientSockets s ! h;
          key = NumberKey (localPort (ck_mapping k));
          s1 = (case map_of (clientsByPort s) key of
                  Some cs \<Rightarrow>
                    s\<lparr>clientsByPort :=
                        map_set (clientsByPort s) key (map_delete cs (ck_clientId k))\<rparr>
                | None \<Rightarrow> s)
      in if serialOpen s1 then
           (case createPacket CMD_DISCONNECT (JsString (ck_clientId k)) []
                   (remoteHost (ck_mapping k)) (remotePort (ck_mapping k))
                   (randomUUID (env s1)) of
              Inl e \<Rightarrow> ingress_gracefulShutdown s1
            | Inr packet \<Rightarrow> serialWrite packet s1)
         else s1)"

definition ingress_uartData :: "buffer \<Rightarrow> ingress \<Rightarrow> ingress" where
  "ingress_uartData chunk s =
     (let r = transform (streamBuffer s) chunk
      in foldl (\<lambda>t p. handleResponsePacket p t) (s\<lparr>streamBuffer := snd r\<rparr>) (fst r))"

text \<open>
  One event. A process that has exited takes no more events; a socket emits \<open>close\<close>
  once and no \<open>data\<close> after it. The \<open>error\<close> handler of a client socket only logs.
\<close>

fun ingress_step :: "ingress \<Rightarrow> ingress_event \<Rightarrow> ingress" where
  "ingress_step s ev =
     (if exitCode s \<noteq> None then s
      else case ev of
        Connection i uuid \<Rightarrow>
          if listening s \<and> i < length (portMappings s) then ingress_connection i uuid s else s
      | ClientData h d \<Rightarrow>
          if h < length (clientSockets s) \<and> \<not> ck_closed (clientSockets s ! h)
          then ingress_clientData h d s else s
      | ClientClose h \<Rightarrow>
          if h < length (clientSockets s) \<and> \<not> ck_closed (clientSockets s ! h)
          then ingress_clientClose h (markClientClosed h s) else s
      | ClientError h \<Rightarrow>
          if h < length (clientSockets s) \<and> \<not> ck_closed (clientSockets s ! h)
          then markClientDestroyed h s else s
      | UartData chunk \<Rightarrow> ingress_uartData chunk s
      | Immediate \<Rightarrow>
          if immediates s > 0 then ingress_gracefulShutdown (s\<lparr>immediates := immediates s - 1\<rparr>)
          else s
      | Interrupt \<Rightarrow> ingress_gracefulShutdown s)"

declare ingress_step.simps [simp del]

definition ingress_run :: "ingress \<Rightarrow> ingress_event list \<Rightarrow> ingress" where
  "ingress_run s evs = foldl ingress_step s evs"

text \<open>The ingress process after start-up, with the serial port and the listeners open.\<close>

definition ingress_init :: "environment \<Rightarrow> mapping list \<Rightarrow> ingress" where
  "ingress_init e ms =
     \<lparr>serialOpen = True, wire = [], streamBuffer = [], exitCode = None, env = e,
      portMappings = ms, clientsByPort = [], clientSockets = [], listening = True,
      immediates = 0\<rparr>"

section \<open>Disconnect packets on the wire\<close>

text \<open>
  A packet that the framer of the other side reads as a Disconnect for session \<open>cid\<close>.
\<close>

definition isDisconnectFor :: "string \<Rightarrow> buffer \<Rightarrow> bool" where
  "isDisconnectFor cid b = (readUInt8 b 0 = 3 \<and> toHex (subarray b 1 17) = cid)"

text \<open>The ids that \<open>crypto.randomUUID()\<close> returned to the connection listeners of a run.\<close>

fun connection_uuids :: "ingress_event list \<Rightarrow> string list" where
  "connection_uuids [] = []"
| "connection_uuids (Connection i uuid # evs) = uuid # connection_uuids evs"
| "connection_uuids (ev # evs) = connection_uuids evs"

text \<open>A session id: 32 lower-case hex digits.\<close>

definition validId :: "string \<Rightarrow> bool" where
  "validId cid = (length cid = 32 \<and> list_all isLowerHex cid)"

text \<open>For each socket accepted so far, its session id and whether it has closed.\<close>

definition session_log :: "ingress \<Rightarrow> (string \<times> bool) list" where
  "session_log s = map (\<lambda>k. (ck_clientId k, ck_closed k)) (clientSockets s)"

text \<open>
  What holds of the ingress process before a shutdown: the session ids are well formed,
  distinct and among \<open>ids\<close>, and every Disconnect on the wire belongs to a socket that
  has closed, one for each at most.
\<close>

definition ingress_inv :: "string list \<Rightarrow> ingress \<Rightarrow> bool" where
  "ingress_inv ids s =
     (list_all validId (map fst (session_log s))
      \<and> distinct (map fst (session_log s))
      \<and> set (map fst (session_log s)) \<subseteq> set ids
      \<and> (\<forall>cid. length (filter (isDisconnectFor cid) (wire s))
                 \<le> length (filter (\<lambda>x. x = (cid, True)) (session_log s))))"

section \<open>Example inputs\<close>

text \<open>A Data frame with two payload bytes and a Disconnect frame of the same session.\<close>

definition example_data_frame :: frame where
  "example_data_frame =
     \<lparr>frame_cmd = 1,
      session_id = [0x12, 0x3e, 0x45, 0x67, 0xe8, 0x9b, 0x42, 0xd3,
                    0xa4, 0x56, 0x42, 0x66, 0x14, 0x17, 0x40, 0x00],
      target_ip = [127, 0, 0, 1], target_port = 9000, payload = [104, 105]\<rparr>"

definition example_disconnect_frame :: frame where
  "example_disconnect_frame = example_data_frame\<lparr>frame_cmd := 3, payload := []\<rparr>"

definition example_uuid :: string where
  "example_uuid = ''123e4567-e89b-42d3-a456-426614174000''"

text \<open>
  An environment in which no socket and no serial port closes before its timer fires and
  no destroyed socket closes before the exit, and one in which every socket and the
  serial port close in time.
\<close>

definition example_env :: environment where
  "example_env =
     \<lparr>socketCloses = (\<lambda>h. False), closesLate = (\<lambda>h. False), closeRank = (\<lambda>h. h),
      serialCloses = False, randomUUID = example_uuid\<rparr>"

definition closing_env :: environment where
  "closing_env =
     \<lparr>socketCloses = (\<lambda>h. True), closesLate = (\<lambda>h. False), closeRank = (\<lambda>h. h),
      serialCloses = True, randomUUID = example_uuid\<rparr>"

text \<open>The built-in fallback mapping of \<open>loadPortMappings\<close>.\<close>

definition example_mappings :: "mapping list" where
  "example_mappings = [\<lparr>localPort = 8080, remoteHost = ''localhost'', remotePort = 22\<rparr>]"

text \<open>
  The Data packet that the ingress side builds for a client of the fallback mapping:
  \<open>createPacket(CMD_DATA, id, data, 'localhost', 22)\<close>.
\<close>

definition localhost_packet :: buffer where
  "localhost_packet =
     [1, 0x12, 0x3e, 0x45, 0x67, 0xe8, 0x9b, 0x42, 0xd3, 0xa4, 0x56, 0x42, 0x66,
      0x14, 0x17, 0x40, 0x00, 0, 0, 0, 0, 0, 22, 0, 0, 0, 2, 104, 105]"

definition localhost_frame :: frame where
  "localhost_frame =
     \<lparr>frame_cmd = 1,
      session_id = [0x12, 0x3e, 0x45, 0x67, 0xe8, 0x9b, 0x42, 0xd3,
                    0xa4, 0x56, 0x42, 0x66, 0x14, 0x17, 0x40, 0x00],
      target_ip = [0, 0, 0, 0], target_port = 22, payload = [104, 105]\<rparr>"

text \<open>A header whose length field is the largest value it can hold, with no payload yet.\<close>

definition oversize_header :: buffer where
  "oversize_header =
     [1, 0x12, 0x3e, 0x45, 0x67, 0xe8, 0x9b, 0x42, 0xd3, 0xa4, 0x56, 0x42, 0x66,
      0x14, 0x17, 0x40, 0x00, 127, 0, 0, 1, 35, 40, 255, 255, 255, 255]"

definition example_program_close_frame :: frame where
  "example_program_close_frame =
     \<lparr>frame_cmd = 5,
      session_id = [0xaa, 0xbb, 0xcc, 0xdd, 0xee, 0xff, 0x40, 0x11,
                    0x80, 0x22, 0x33, 0x44, 0x55, 0x66, 0x77, 0x88],
      target_ip = [0, 0, 0, 0], target_port = 0, payload = []\<rparr>"

text \<open>The ingress process with one client connected, and the egress process with one
  target connected for the same session.\<close>

definition ingress_one_client :: ingress where
  "ingress_one_client =
     ingress_run (ingress_init example_env example_mappings) [Connection 0 example_uuid]"

definition egress_one_target :: egress where
  "egress_one_target =
     egress_run (egress_init example_env)
       [SerialData (frame_bytes example_data_frame), Connected 0]"



text \<open>A mapping whose port does not fit the 16-bit field of the frame.\<close>

definition bad_port_mappings :: "mapping list" where
  "bad_port_mappings = [\<lparr>localPort = 8081, remoteHost = ''10.0.0.7'', remotePort = 70000\<rparr>]"

text \<open>A second Data frame of the same session.\<close>

definition example_second_frame :: frame where
  "example_second_frame = example_data_frame\<lparr>payload := [106]\<rparr>"

section \<open>Properties of the codec primitives\<close>

lemma unhex_hexDigit: "n < 16 \<Longrightarrow> unhex (hexDigit n) = Some n"
proof -
  assume "n < 16"
  then have "n \<in> set [0..<16]" by simp
  then show ?thesis
    unfolding upt_conv_Cons_Cons
    apply (simp add: upt_rec)
    apply (elim disjE; simp add: unhex_def hexDigit_def)
    done
qed

lemma unat_byte_less: "unat (b :: byte) < 256"
  using unsigned_less [of b, where ?'a = nat] by simp

lemma fromHex_toHex: "fromHex (toHex bs) = bs"
proof (induction bs)
  case Nil
  show ?case by simp
next
  case (Cons b bs)
  have hi: "unat b div 16 < 16" using unat_byte_less [of b] by simp
  have lo: "unat b mod 16 < 16" by simp
  show ?case
    by (simp add: unhex_hexDigit [OF hi] unhex_hexDigit [OF lo] Cons.IH)
qed

lemma length_toHex: "length (toHex bs) = 2 * length bs"
  by (induction bs) simp_all


lemma digit_char: "d < 10 \<Longrightarrow> of_char (char_of (48 + d :: nat)) = (48 + d :: nat)"
  by simp

lemma numberToString_digits: "\<forall>c \<in> set (numberToString n). isDigit c"
proof (induction n rule: numberToString.induct)
  case (1 n)
  show ?case
  proof (cases "n < 10")
    case True
    then show ?thesis by (subst numberToString.simps) (simp add: isDigit_def)
  next
    case False
    have "n mod 10 < 10" by simp
    then have "isDigit (char_of (48 + n mod 10))" by (simp add: isDigit_def)
    with False 1 show ?thesis by (subst numberToString.simps) simp
  qed
qed

lemma numberToString_nonempty: "numberToString n \<noteq> []"
  by (subst numberToString.simps) simp

lemma digitValue_digit: "isDigit c \<Longrightarrow> digitValue 10 c = Some (of_char c - 48)"
  by (auto simp add: digitValue_def isDigit_def Let_def)

lemma numberToString_value:
  "foldl (\<lambda>a c. a * 10 + the (digitValue 10 c)) 0 (numberToString n) = n"
proof (induction n rule: numberToString.induct)
  case (1 n)
  show ?case
  proof (cases "n < 10")
    case True
    then show ?thesis
      by (subst numberToString.simps) (simp add: digitValue_def Let_def)
  next
    case False
    have d: "n mod 10 \<le> 9" by presburger
    have "the (digitValue 10 (char_of (48 + n mod 10))) = n mod 10"
      using d by (simp add: digitValue_def Let_def)
    with False 1 show ?thesis by (subst numberToString.simps) simp
  qed
qed

lemma isDigit_facts:
  "isDigit c \<Longrightarrow> \<not> isWhiteSpace c \<and> c \<noteq> CHR ''-'' \<and> c \<noteq> CHR ''+'' \<and> c \<noteq> CHR ''x''
     \<and> c \<noteq> CHR ''X'' \<and> c \<noteq> CHR ''.'' \<and> digitValue 10 c \<noteq> None"
  by (auto simp add: isDigit_def isWhiteSpace_def digitValue_def Let_def)

lemma bitLength_le: "n < 2 ^ k \<Longrightarrow> bitLength n \<le> k"
proof (induction k arbitrary: n)
  case 0
  then show ?case by (subst bitLength.simps) simp
next
  case (Suc k)
  show ?case
  proof (cases "n = 0")
    case True
    then show ?thesis by (subst bitLength.simps) simp
  next
    case False
    have "n div 2 < 2 ^ k" using Suc.prems by simp
    then have "bitLength (n div 2) \<le> k" by (rule Suc.IH)
    then show ?thesis using False by (subst bitLength.simps) simp
  qed
qed

lemma roundToDouble_exact: "n < 2 ^ 53 \<Longrightarrow> roundToDouble n = Some n"
  using bitLength_le [of n 53] by (simp add: roundToDouble_def)

lemma parseInt_digits:
  assumes "s \<noteq> []" and "\<forall>c \<in> set s. isDigit c"
    and "foldl (\<lambda>a c. a * 10 + the (digitValue 10 c)) 0 s < 2 ^ 53"
  shows "parseInt s = Finite (int (foldl (\<lambda>a c. a * 10 + the (digitValue 10 c)) 0 s))"
proof -
  obtain c cs where s: "s = c # cs" using assms(1) by (cases s) auto
  have c: "isDigit c" using assms(2) s by simp
  have ws: "dropWhile isWhiteSpace s = s" using c isDigit_facts [of c] s by simp
  have nohex: "(length s \<ge> 2 \<and> hd s = CHR ''0'' \<and> (s ! 1 = CHR ''x'' \<or> s ! 1 = CHR ''X''))
                = False"
  proof (cases cs)
    case Nil
    then show ?thesis using s by simp
  next
    case (Cons d ds)
    then have "isDigit d" using assms(2) s by simp
    then show ?thesis using s Cons isDigit_facts [of d] by simp
  qed
  have tw: "takeWhile (\<lambda>c. digitValue 10 c \<noteq> None) s = s"
    using assms(2) isDigit_facts by simp
  have sign: "hd s \<noteq> CHR ''-''" "hd s \<noteq> CHR ''+''" using s c isDigit_facts [of c] by simp_all
  have s2: "(if s \<noteq> [] \<and> (hd s = CHR ''-'' \<or> hd s = CHR ''+'') then tl s else s) = s"
    using sign by simp
  note rd = roundToDouble_exact [OF assms(3)]
  show ?thesis
    unfolding parseInt_def Let_def ws s2 nohex if_False tw rd
    using sign assms(1) by simp
qed

lemma parseInt_numberToString:
  "n < 2 ^ 53 \<Longrightarrow> parseInt (numberToString n) = Finite (int n)"
  using parseInt_digits [OF numberToString_nonempty numberToString_digits, of n]
  by (simp add: numberToString_value)

lemma parseInt_byte: "parseInt (numberToString (unat (b :: byte))) = Finite (int (unat b))"
proof -
  have "unat b < 2 ^ 53" using unat_byte_less [of b] by simp
  then show ?thesis by (rule parseInt_numberToString)
qed

text \<open>An integer of 54 bits is rounded: \<open>2 ^ 53 + 1\<close> is read as \<open>2 ^ 53\<close>.\<close>

lemma bitLength_example: "bitLength 9007199254740993 = 54"
  by (simp add: bitLength.simps)

lemma parseInt_rounds: "parseInt ''9007199254740993'' = Finite 9007199254740992"
  by (simp add: parseInt_def isWhiteSpace_def digitValue_def roundToDouble_def
        bitLength_example Let_def)

lemma split_no_sep: "sep \<notin> set p \<Longrightarrow> split sep p = [p]"
  by (induction p) (auto simp add: Let_def)

lemma split_append_sep:
  "sep \<notin> set p \<Longrightarrow> split sep (p @ sep # rest) = p # split sep rest"
  by (induction p) (auto simp add: Let_def)

lemma split_join:
  "ps \<noteq> [] \<Longrightarrow> \<forall>p \<in> set ps. sep \<notin> set p \<Longrightarrow> split sep (join sep ps) = ps"
proof (induction sep ps rule: join.induct)
  case (1 sep)
  then show ?case by simp
next
  case (2 sep p)
  then show ?case by (simp add: split_no_sep)
next
  case (3 sep p q ps)
  then show ?case by (simp add: split_append_sep)
qed

lemma numberToString_no_dot: "CHR ''.'' \<notin> set (numberToString n)"
  using numberToString_digits [of n] isDigit_facts by blast

lemma join_nonempty: "ps \<noteq> [] \<Longrightarrow> \<forall>p \<in> set ps. p \<noteq> [] \<Longrightarrow> join sep ps \<noteq> []"
  by (induction sep ps rule: join.induct) simp_all

lemma ipParts_dotted:
  assumes "ip \<noteq> []"
  shows "ipParts (join CHR ''.'' (map (\<lambda>b. numberToString (unat b)) (ip :: buffer)))
           = map (\<lambda>b. Finite (int (unat b))) ip"
proof -
  have "split CHR ''.'' (join CHR ''.'' (map (\<lambda>b. numberToString (unat b)) ip))
          = map (\<lambda>b. numberToString (unat b)) ip"
    using assms by (intro split_join) (auto simp add: numberToString_no_dot)
  then show ?thesis
    by (simp add: ipParts_def parseInt_byte orZero_def comp_def)
qed

lemma ipBuffer_dotted:
  assumes "length (ip :: buffer) = 4"
  shows "ipBuffer (join CHR ''.'' (map (\<lambda>b. numberToString (unat b)) ip)) = ip"
proof -
  have ne: "ip \<noteq> []" using assms by auto
  have "join CHR ''.'' (map (\<lambda>b. numberToString (unat b)) ip) \<noteq> []"
    using ne by (intro join_nonempty) (auto simp add: numberToString_nonempty)
  then show ?thesis
    using assms by (simp add: ipBuffer_def ipParts_dotted [OF ne] toUint8_def comp_def map_idI)
qed

lemma copy_at:
  "length pre = off \<Longrightarrow> length src \<le> length mid \<Longrightarrow>
   copy src (pre @ mid @ post) off = pre @ src @ drop (length src) mid @ post"
  by (simp add: copy_def)

lemma byte_of_nat: "unat (of_nat m :: byte) = m mod 256"
  by (simp add: unat_of_nat)

lemma byte_of_int_div: "(of_int (int n div int k) :: byte) = of_nat (n div k)"
  by (metis of_int_of_nat_eq zdiv_int)

lemma u32_nat_bytes:
  assumes "n \<le> 4294967295"
  shows "unat (of_nat (n div 16777216) :: byte) * 16777216
         + unat (of_nat (n div 65536) :: byte) * 65536
         + unat (of_nat (n div 256) :: byte) * 256
         + unat (of_nat n :: byte) = n"
proof -
  have d1: "n div 256 div 256 = n div 65536" by (simp add: div_mult2_eq [symmetric])
  have d2: "n div 65536 div 256 = n div 16777216" by (simp add: div_mult2_eq [symmetric])
  have e0: "n = 256 * (n div 256) + n mod 256" by simp
  have e1: "n div 256 = 256 * (n div 65536) + n div 256 mod 256"
    using mult_div_mod_eq [of 256 "n div 256"] d1 by simp
  have e2: "n div 65536 = 256 * (n div 16777216) + n div 65536 mod 256"
    using mult_div_mod_eq [of 256 "n div 65536"] d2 by simp
  have top: "n div 16777216 < 256" using assms by (simp add: less_mult_imp_div_less)
  then have e3: "n div 16777216 mod 256 = n div 16777216" by simp
  show ?thesis unfolding byte_of_nat e3 using e0 e1 e2 by linarith
qed

lemma u32_bytes:
  assumes "n \<le> 4294967295"
  shows "unat (of_int (int n div 16777216) :: byte) * 16777216
         + unat (of_int (int n div 65536) :: byte) * 65536
         + unat (of_int (int n div 256) :: byte) * 256
         + unat (of_int (int n) :: byte) = n"
  using u32_nat_bytes [OF assms] byte_of_int_div [of n 16777216] byte_of_int_div [of n 65536]
    byte_of_int_div [of n 256]
  by simp

lemma u16_bytes:
  assumes "n \<le> 65535"
  shows "unat (of_int (int n div 256) :: byte) * 256 + unat (of_int (int n) :: byte) = n"
proof -
  have top: "n div 256 < 256" using assms by (simp add: less_mult_imp_div_less)
  then have e1: "n div 256 mod 256 = n div 256" by simp
  have e0: "n = 256 * (n div 256) + n mod 256" by simp
  have "unat (of_nat (n div 256) :: byte) * 256 + unat (of_nat n :: byte) = n"
    unfolding byte_of_nat e1 using e0 by linarith
  then show ?thesis using byte_of_int_div [of n 256] by simp
qed

lemma createPacket_layout:
  assumes c: "0 \<le> c" "c \<le> 255"
    and port: "0 \<le> port" "port \<le> 65535"
    and len: "length dat \<le> 4294967295"
    and idb: "length (clientIdBuffer cid uuid) \<le> 16"
    and ipb: "length (ipBuffer host) \<le> 4"
  shows "createPacket c cid dat host port uuid =
           Inr ([of_int c] @ clientIdBuffer cid uuid
                @ replicate (16 - length (clientIdBuffer cid uuid)) 0
                @ ipBuffer host @ replicate (4 - length (ipBuffer host)) 0
                @ [of_int (port div 256), of_int port]
                @ [of_int (int (length dat) div 16777216), of_int (int (length dat) div 65536),
                   of_int (int (length dat) div 256), of_int (int (length dat))]
                @ dat)"
proof -
  define n where "n = length dat"
  define I where "I = clientIdBuffer cid uuid"
  define P where "P = ipBuffer host"
  define z :: "nat \<Rightarrow> buffer" where "z k = replicate k 0" for k
  have zlen [simp]: "length (z k) = k" for k by (simp add: z_def)
  have zdrop [simp]: "drop j (z k) = z (k - j)" for j k by (simp add: z_def)
  have z0 [simp]: "z 0 = []" by (simp add: z_def)
  have p0: "alloc (1 + 16 + 4 + 2 + 4 + n) = [] @ z 1 @ (z 16 @ z 4 @ z 2 @ z 4 @ z n)"
    unfolding alloc_def z_def by (simp only: replicate_add append_Nil append_assoc)
  have s1: "copy [of_int c] (alloc (1 + 16 + 4 + 2 + 4 + n)) 0
              = [of_int c] @ z 16 @ (z 4 @ z 2 @ z 4 @ z n)"
    unfolding p0 by (subst copy_at) simp_all
  have s2: "copy I ([of_int c] @ z 16 @ (z 4 @ z 2 @ z 4 @ z n)) 1
              = ([of_int c] @ I @ z (16 - length I)) @ z 4 @ (z 2 @ z 4 @ z n)"
    using idb by (subst copy_at) (simp_all add: I_def)
  have s3: "copy P (([of_int c] @ I @ z (16 - length I)) @ z 4 @ (z 2 @ z 4 @ z n)) 17
              = ([of_int c] @ I @ z (16 - length I) @ P @ z (4 - length P)) @ z 2 @ (z 4 @ z n)"
    using idb ipb by (subst copy_at) (simp_all add: I_def P_def)
  have s4: "copy [a, b] (([of_int c] @ I @ z (16 - length I) @ P @ z (4 - length P)) @ z 2
                @ (z 4 @ z n)) 21
              = ([of_int c] @ I @ z (16 - length I) @ P @ z (4 - length P) @ [a, b]) @ z 4
                  @ (z n @ [])" for a b :: byte
    using idb ipb by (subst copy_at) (simp_all add: I_def P_def)
  have s5: "copy [a, b, d, e] (([of_int c] @ I @ z (16 - length I) @ P @ z (4 - length P)
                @ [x, y]) @ z 4 @ (z n @ [])) 23
              = ([of_int c] @ I @ z (16 - length I) @ P @ z (4 - length P) @ [x, y]
                  @ [a, b, d, e]) @ z n @ []" for a b d e x y :: byte
    using idb ipb by (subst copy_at) (simp_all add: I_def P_def)
  have s6: "copy dat (([of_int c] @ I @ z (16 - length I) @ P @ z (4 - length P) @ [x, y]
                  @ [a, b, d, e]) @ z n @ []) 27
              = [of_int c] @ I @ z (16 - length I) @ P @ z (4 - length P) @ [x, y]
                  @ [a, b, d, e] @ dat" for a b d e x y :: byte
    using idb ipb by (subst copy_at) (simp_all add: I_def P_def n_def)
  have w1: "writeUInt8 c 0 (alloc (1 + 16 + 4 + 2 + 4 + n))
              = Inr ([of_int c] @ z 16 @ (z 4 @ z 2 @ z 4 @ z n))"
    using c by (simp only: writeUInt8_def s1) simp
  have w2: "writeUInt16BE port 21 (([of_int c] @ I @ z (16 - length I) @ P @ z (4 - length P))
                @ z 2 @ (z 4 @ z n))
              = Inr (([of_int c] @ I @ z (16 - length I) @ P @ z (4 - length P)
                      @ [of_int (port div 256), of_int port]) @ z 4 @ (z n @ []))"
    using port by (simp only: writeUInt16BE_def s4) simp
  have w3: "writeUInt32BE (int n) 23 (([of_int c] @ I @ z (16 - length I) @ P
                @ z (4 - length P) @ [x, y]) @ z 4 @ (z n @ []))
              = Inr (([of_int c] @ I @ z (16 - length I) @ P @ z (4 - length P) @ [x, y]
                  @ [of_int (int n div 16777216), of_int (int n div 65536),
                     of_int (int n div 256), of_int (int n)]) @ z n @ [])" for x y :: byte
    using len by (simp only: writeUInt32BE_def s5) (simp add: n_def)
  show ?thesis
    unfolding createPacket_def Let_def n_def [symmetric] I_def [symmetric] P_def [symmetric]
    by (simp only: w1 s2 s3 w2 w3 s6 sum.case) (simp add: z_def)
qed

lemma nth_after:
  "length pre = k \<Longrightarrow> (pre @ xs) ! (k + i) = xs ! i"
  by (simp add: nth_append)

lemma readUInt32BE_at:
  assumes "length pre = k"
  shows "readUInt32BE (pre @ a # b # c # d # post) k =
           unat a * 16777216 + unat b * 65536 + unat c * 256 + unat d"
  using nth_after [OF assms, of "a # b # c # d # post" 0]
    nth_after [OF assms, of "a # b # c # d # post" 1]
    nth_after [OF assms, of "a # b # c # d # post" 2]
    nth_after [OF assms, of "a # b # c # d # post" 3]
  by (simp add: readUInt32BE_def)

lemma readUInt16BE_at:
  assumes "length pre = k"
  shows "readUInt16BE (pre @ a # b # post) k = unat a * 256 + unat b"
  using nth_after [OF assms, of "a # b # post" 0] nth_after [OF assms, of "a # b # post" 1]
  by (simp add: readUInt16BE_def)

lemma encode_frame_bytes:
  assumes "frame_ok f"
  shows "encode f uuid = Inr (frame_bytes f)"
proof -
  have id16: "length (session_id f) = 16" and ip4: "length (target_ip f) = 4"
    and len: "length (payload f) \<le> 4294967295"
    using assms by (simp_all add: frame_ok_def)
  have idb: "clientIdBuffer (JsString (toHex (session_id f))) uuid = session_id f"
    by (simp add: clientIdBuffer_def length_toHex id16 fromHex_toHex)
  have ipb: "ipBuffer (dotted (target_ip f)) = target_ip f"
    unfolding dotted_def by (rule ipBuffer_dotted [OF ip4])
  have c: "uint (frame_cmd f) \<le> 255"
    using unsigned_less [of "frame_cmd f", where ?'a = int] by simp
  have p: "uint (target_port f) \<le> 65535"
    using unsigned_less [of "target_port f", where ?'a = int] by simp
  have "createPacket (int (unat (frame_cmd f))) (JsString (toHex (session_id f))) (payload f)
          (dotted (target_ip f)) (int (unat (target_port f))) uuid
        = Inr ([of_int (int (unat (frame_cmd f)))]
                @ clientIdBuffer (JsString (toHex (session_id f))) uuid
                @ replicate (16 - length (clientIdBuffer (JsString (toHex (session_id f))) uuid)) 0
                @ ipBuffer (dotted (target_ip f))
                @ replicate (4 - length (ipBuffer (dotted (target_ip f)))) 0
                @ [of_int (int (unat (target_port f)) div 256), of_int (int (unat (target_port f)))]
                @ [of_int (int (length (payload f)) div 16777216),
                   of_int (int (length (payload f)) div 65536),
                   of_int (int (length (payload f)) div 256), of_int (int (length (payload f)))]
                @ payload f)"
    using c p len by (intro createPacket_layout) (simp_all add: idb ipb id16 ip4)
  then show ?thesis
    using byte_of_int_div [of "unat (target_port f)" 256]
      byte_of_int_div [of "length (payload f)" 16777216]
      byte_of_int_div [of "length (payload f)" 65536]
      byte_of_int_div [of "length (payload f)" 256]
    by (simp add: encode_def packet_of_def frame_bytes_def idb ipb id16 ip4)
qed

lemma length_frame_bytes:
  "frame_ok f \<Longrightarrow> length (frame_bytes f) = 27 + length (payload f)"
  by (simp add: frame_ok_def frame_bytes_def)

lemma frame_bytes_split:
  "frame_bytes f @ rest =
     ([frame_cmd f] @ session_id f @ target_ip f)
     @ of_nat (unat (target_port f) div 256) # of_nat (unat (target_port f))
     # ([of_nat (length (payload f) div 16777216), of_nat (length (payload f) div 65536),
        of_nat (length (payload f) div 256), of_nat (length (payload f))]
     @ payload f @ rest)"
  by (simp add: frame_bytes_def)

lemma frame_bytes_split32:
  "frame_bytes f @ rest =
     ([frame_cmd f] @ session_id f @ target_ip f
       @ [of_nat (unat (target_port f) div 256), of_nat (unat (target_port f))])
     @ of_nat (length (payload f) div 16777216) # of_nat (length (payload f) div 65536)
     # of_nat (length (payload f) div 256) # of_nat (length (payload f))
     # (payload f @ rest)"
  by (simp add: frame_bytes_def)

lemma readUInt32BE_frame:
  assumes "frame_ok f"
  shows "readUInt32BE (frame_bytes f @ rest) 23 = length (payload f)"
proof -
  have l: "length ([frame_cmd f] @ session_id f @ target_ip f
       @ [of_nat (unat (target_port f) div 256), of_nat (unat (target_port f))]) = 23"
    using assms by (simp add: frame_ok_def)
  have len: "length (payload f) \<le> 4294967295" using assms by (simp add: frame_ok_def)
  show ?thesis
    unfolding frame_bytes_split32 readUInt32BE_at [OF l]
    by (rule u32_nat_bytes [OF len])
qed

lemma readUInt16BE_frame:
  assumes "frame_ok f"
  shows "readUInt16BE (frame_bytes f @ rest) 21 = unat (target_port f)"
proof -
  have l: "length ([frame_cmd f] @ session_id f @ target_ip f) = 21"
    using assms by (simp add: frame_ok_def)
  have p: "unat (target_port f) \<le> 65535"
    using unsigned_less [of "target_port f", where ?'a = nat] by simp
  have "unat (of_nat (unat (target_port f) div 256) :: byte) * 256
          + unat (of_nat (unat (target_port f)) :: byte) = unat (target_port f)"
    using u16_bytes [OF p] byte_of_int_div [of "unat (target_port f)" 256] by simp
  then show ?thesis
    unfolding frame_bytes_split readUInt16BE_at [OF l] by simp
qed

lemma decodePacket_frame:
  assumes "frame_ok f"
  shows "decodePacket (frame_bytes f @ rest) = packet_of f"
proof -
  have id16: "length (session_id f) = 16" and ip4: "length (target_ip f) = 4"
    using assms by (simp_all add: frame_ok_def)
  have a: "readUInt8 (frame_bytes f @ rest) 0 = unat (frame_cmd f)"
    by (simp add: readUInt8_def frame_bytes_def)
  have b: "subarray (frame_bytes f @ rest) 1 17 = session_id f"
    using id16 by (simp add: subarray_def frame_bytes_def)
  have c: "subarray (frame_bytes f @ rest) 17 21 = target_ip f"
    using id16 ip4 by (simp add: subarray_def frame_bytes_def)
  have d: "subarray (frame_bytes f @ rest) 27 (27 + length (payload f)) = payload f"
    using id16 ip4 by (simp add: subarray_def frame_bytes_def)
  show ?thesis
    unfolding decodePacket_def readUInt32BE_frame [OF assms] readUInt16BE_frame [OF assms]
      a b c d
    by (simp add: packet_of_def dotted_def)
qed

lemma packetLoop_frame:
  assumes "frame_ok f"
  shows "packetLoop (frame_bytes f @ rest)
           = (packet_of f # fst (packetLoop rest), snd (packetLoop rest))"
proof -
  have l: "length (frame_bytes f @ rest) = 27 + length (payload f) + length rest"
    using length_frame_bytes [OF assms] by simp
  have dr: "drop (27 + length (payload f)) (frame_bytes f @ rest) = rest"
    using length_frame_bytes [OF assms] by simp
  have c1: "27 \<le> length (frame_bytes f @ rest)" using l by simp
  have c2: "27 + length (payload f) \<le> length (frame_bytes f @ rest)" using l by simp
  show ?thesis
    by (subst packetLoop.simps [of "frame_bytes f @ rest"])
       (simp only: c1 c2 readUInt32BE_frame [OF assms] decodePacket_frame [OF assms] dr
          Let_def if_True)
qed

lemma readUInt32BE_prefix:
  "27 \<le> length buf \<Longrightarrow> readUInt32BE (buf @ ys) 23 = readUInt32BE buf 23"
  by (simp add: readUInt32BE_def nth_append)

lemma subarray_prefix:
  "stop \<le> length buf \<Longrightarrow> subarray (buf @ ys) start stop = subarray buf start stop"
  by (simp add: subarray_def)

lemma decodePacket_prefix:
  assumes "27 \<le> length buf" and "27 + readUInt32BE buf 23 \<le> length buf"
  shows "decodePacket (buf @ ys) = decodePacket buf"
proof -
  have a: "readUInt8 (buf @ ys) 0 = readUInt8 buf 0"
    using assms(1) by (auto simp add: readUInt8_def nth_append)
  have b: "readUInt16BE (buf @ ys) 21 = readUInt16BE buf 21"
    using assms(1) by (simp add: readUInt16BE_def nth_append)
  have c: "subarray (buf @ ys) 1 17 = subarray buf 1 17"
    using assms(1) by (intro subarray_prefix) simp
  have d: "subarray (buf @ ys) 17 21 = subarray buf 17 21"
    using assms(1) by (intro subarray_prefix) simp
  have e: "subarray (buf @ ys) 27 (27 + readUInt32BE buf 23)
             = subarray buf 27 (27 + readUInt32BE buf 23)"
    using assms(2) by (intro subarray_prefix) simp
  show ?thesis
    unfolding decodePacket_def readUInt32BE_prefix [OF assms(1)] a b c d e ..
qed

lemma packetLoop_stop:
  "length buf < 27 \<or> length buf < 27 + readUInt32BE buf 23 \<Longrightarrow> packetLoop buf = ([], buf)"
  by (subst packetLoop.simps) (auto simp add: Let_def)

lemma packetLoop_append:
  "packetLoop (xs @ ys) =
     (fst (packetLoop xs) @ fst (packetLoop (snd (packetLoop xs) @ ys)),
      snd (packetLoop (snd (packetLoop xs) @ ys)))"
proof (induction xs rule: packetLoop.induct)
  case (1 buf)
  show ?case
  proof (cases "27 \<le> length buf \<and> 27 + readUInt32BE buf 23 \<le> length buf")
    case True
    define k where "k = 27 + readUInt32BE buf 23"
    have c1: "27 \<le> length buf" and c2: "k \<le> length buf" using True by (simp_all add: k_def)
    have step: "packetLoop buf
                  = (decodePacket buf # fst (packetLoop (drop k buf)), snd (packetLoop (drop k buf)))"
      using True by (subst packetLoop.simps) (simp add: Let_def k_def)
    have d1: "27 \<le> length (buf @ ys)" using c1 by simp
    have d2: "27 + readUInt32BE (buf @ ys) 23 \<le> length (buf @ ys)"
      using c2 by (simp add: readUInt32BE_prefix [OF c1] k_def)
    have dr: "drop (27 + readUInt32BE (buf @ ys) 23) (buf @ ys) = drop k buf @ ys"
      using c2 by (simp add: readUInt32BE_prefix [OF c1] k_def)
    have dec: "decodePacket (buf @ ys) = decodePacket buf"
      using True by (intro decodePacket_prefix) simp_all
    have step': "packetLoop (buf @ ys)
                  = (decodePacket buf # fst (packetLoop (drop k buf @ ys)),
                     snd (packetLoop (drop k buf @ ys)))"
      by (subst packetLoop.simps [of "buf @ ys"]) (simp only: d1 d2 dr dec Let_def if_True)
    have ih: "packetLoop (drop k buf @ ys) =
        (fst (packetLoop (drop k buf)) @ fst (packetLoop (snd (packetLoop (drop k buf)) @ ys)),
         snd (packetLoop (snd (packetLoop (drop k buf)) @ ys)))"
      using "1.IH" [OF c1 refl] c2 by (simp add: k_def)
    show ?thesis
      unfolding step' step by (subst ih, subst ih) simp
  next
    case False
    then have "packetLoop buf = ([], buf)" by (intro packetLoop_stop) auto
    then show ?thesis by simp
  qed
qed

lemma packetLoop_idem: "packetLoop (snd (packetLoop buf)) = ([], snd (packetLoop buf))"
proof (induction buf rule: packetLoop.induct)
  case (1 buf)
  show ?case
  proof (cases "27 \<le> length buf \<and> 27 + readUInt32BE buf 23 \<le> length buf")
    case True
    then have "snd (packetLoop buf) = snd (packetLoop (drop (27 + readUInt32BE buf 23) buf))"
      by (subst packetLoop.simps) (simp add: Let_def)
    then show ?thesis using "1.IH" [OF _ refl] True by simp
  next
    case False
    then have "packetLoop buf = ([], buf)" by (intro packetLoop_stop) auto
    then show ?thesis by simp
  qed
qed

lemma feed_packetLoop:
  "packetLoop buf = ([], buf) \<Longrightarrow> feed buf chunks = packetLoop (buf @ concat chunks)"
proof (induction chunks arbitrary: buf)
  case Nil
  then show ?case by simp
next
  case (Cons c cs)
  have st: "packetLoop (snd (packetLoop (buf @ c))) = ([], snd (packetLoop (buf @ c)))"
    by (rule packetLoop_idem)
  have "packetLoop ((buf @ c) @ concat cs) =
          (fst (packetLoop (buf @ c)) @ fst (packetLoop (snd (packetLoop (buf @ c)) @ concat cs)),
           snd (packetLoop (snd (packetLoop (buf @ c)) @ concat cs)))"
    by (rule packetLoop_append)
  then show ?case
    using Cons.IH [OF st] by (simp add: transform_def Let_def)
qed

lemma packetLoop_frames:
  assumes "\<forall>f \<in> set fs. frame_ok f" and "partial_frame rest"
  shows "packetLoop (concat (map frame_bytes fs) @ rest) = (map packet_of fs, rest)"
  using assms(1)
proof (induction fs)
  case Nil
  show ?case using assms(2) by (simp add: packetLoop_stop partial_frame_def)
next
  case (Cons f fs)
  have "packetLoop (frame_bytes f @ (concat (map frame_bytes fs) @ rest))
          = (packet_of f # fst (packetLoop (concat (map frame_bytes fs) @ rest)),
             snd (packetLoop (concat (map frame_bytes fs) @ rest)))"
    using Cons.prems by (intro packetLoop_frame) simp
  then show ?case using Cons by simp
qed

lemma packetLoop_Nil: "packetLoop [] = ([], [])"
  by (rule packetLoop_stop) simp


lemma length_copy: "length (copy src tgt off) = length tgt"
  by (simp add: copy_def min_def)

lemma nth_copy_before: "i < off \<Longrightarrow> i < length tgt \<Longrightarrow> copy src tgt off ! i = tgt ! i"
  by (simp add: copy_def nth_append)

lemma createPacket_Inr:
  assumes "createPacket c cid dat host port uuid = Inr b"
  shows "0 \<le> c \<and> c \<le> 255 \<and> 0 \<le> port \<and> port \<le> 65535 \<and> length dat \<le> 4294967295
         \<and> length b = 27 + length dat \<and> b ! 0 = of_int c"
proof -
  define n where "n = length dat"
  have c: "0 \<le> c \<and> c \<le> 255"
    using assms by (auto simp add: createPacket_def writeUInt8_def Let_def split: if_splits)
  then have w1: "writeUInt8 c 0 (alloc (1 + 16 + 4 + 2 + 4 + n))
                   = Inr (copy [of_int c] (alloc (1 + 16 + 4 + 2 + 4 + n)) 0)"
    by (simp add: writeUInt8_def)
  define p1 where "p1 = copy [of_int c] (alloc (1 + 16 + 4 + 2 + 4 + n)) 0"
  define p3 where "p3 = copy (ipBuffer host) (copy (clientIdBuffer cid uuid) p1 1) 17"
  have l1: "length p1 = 27 + n" by (simp add: p1_def length_copy alloc_def)
  have h1: "p1 ! 0 = of_int c" by (simp add: p1_def copy_def alloc_def)
  have l3: "length p3 = 27 + n" by (simp add: p3_def length_copy l1)
  have h3: "p3 ! 0 = of_int c" by (simp add: p3_def nth_copy_before length_copy l1 h1)
  have step: "createPacket c cid dat host port uuid =
               (case writeUInt16BE port 21 p3 of
                  Inl e \<Rightarrow> Inl e
                | Inr p4 \<Rightarrow> (case writeUInt32BE (int n) 23 p4 of
                               Inl e \<Rightarrow> Inl e
                             | Inr p5 \<Rightarrow> Inr (copy dat p5 27)))"
    unfolding createPacket_def Let_def n_def [symmetric] w1 p1_def [symmetric]
    by (simp add: p3_def)
  have port: "0 \<le> port \<and> port \<le> 65535"
    using assms unfolding step by (auto simp add: writeUInt16BE_def split: if_splits)
  define p4 where "p4 = copy [of_int (port div 256), of_int port] p3 21"
  have w2: "writeUInt16BE port 21 p3 = Inr p4" using port by (simp add: writeUInt16BE_def p4_def)
  have l4: "length p4 = 27 + n" by (simp add: p4_def length_copy l3)
  have h4: "p4 ! 0 = of_int c" by (simp add: p4_def nth_copy_before l3 h3)
  have len: "n \<le> 4294967295"
    using assms by (auto simp add: step w2 writeUInt32BE_def split: if_splits)
  define p5 where "p5 = copy [of_int (int n div 16777216), of_int (int n div 65536),
                             of_int (int n div 256), of_int (int n)] p4 23"
  have w3: "writeUInt32BE (int n) 23 p4 = Inr p5" using len by (simp add: writeUInt32BE_def p5_def)
  have l5: "length p5 = 27 + n" by (simp add: p5_def length_copy l4)
  have h5: "p5 ! 0 = of_int c" by (simp add: p5_def nth_copy_before l4 h4)
  have "b = copy dat p5 27" using assms by (simp add: step w2 w3)
  then have "length b = 27 + n \<and> b ! 0 = of_int c"
    by (simp add: length_copy l5 nth_copy_before h5)
  then show ?thesis using c port len by (simp add: n_def)
qed

lemma createPacket_succeeds:
  assumes "0 \<le> c" "c \<le> 255" "0 \<le> port" "port \<le> 65535" "length dat \<le> 4294967295"
  shows "\<exists>b. createPacket c cid dat host port uuid = Inr b"
  using assms by (simp add: createPacket_def writeUInt8_def writeUInt16BE_def writeUInt32BE_def Let_def)

lemma createPacket_cmd:
  assumes "createPacket c cid dat host port uuid = Inr b"
  shows "readUInt8 b 0 = nat c"
proof -
  have "0 \<le> c \<and> c \<le> 255 \<and> b ! 0 = of_int c" using createPacket_Inr [OF assms] by simp
  then show ?thesis
    by (simp add: readUInt8_def unat_eq_nat_uint uint_word_of_int)
qed

lemma length_fromHex: "2 * length (fromHex s) \<le> length s"
  by (induction s rule: fromHex.induct) (auto split: option.splits)

lemma filter_split: "filter (\<lambda>c. c \<noteq> sep) s = concat (split sep s)"
proof (induction s)
  case Nil
  show ?case by simp
next
  case (Cons c s)
  have ne: "split sep s \<noteq> []" by (cases s) (simp_all add: Let_def)
  then have "concat (split sep s) = hd (split sep s) @ concat (tl (split sep s))"
    by (cases "split sep s") simp_all
  then show ?case using Cons by (simp add: Let_def)
qed

lemma isLowerHex_unhex:
  "isLowerHex c \<Longrightarrow> \<exists>x. x < 16 \<and> unhex c = Some x \<and> hexDigit x = c"
  unfolding isLowerHex_def
  by (auto simp add: unhex_def hexDigit_def)

lemma byte_of_nibbles:
  assumes "x < 16" "y < 16"
  shows "unat (of_nat (16 * x + y) :: byte) div 16 = x \<and> unat (of_nat (16 * x + y) :: byte) mod 16 = y"
proof -
  have "16 * x + y < 256" using assms by simp
  moreover have "unat (of_nat (16 * x + y) :: byte) = (16 * x + y) mod 256"
    by (rule byte_of_nat)
  ultimately have "unat (of_nat (16 * x + y) :: byte) = 16 * x + y" by simp
  then show ?thesis using assms by (simp del: of_nat_add of_nat_mult)
qed

lemma toHex_fromHex:
  "list_all isLowerHex s \<Longrightarrow> even (length s) \<Longrightarrow> toHex (fromHex s) = s"
proof (induction s rule: fromHex.induct)
  case (1 a b rest)
  obtain x where x: "x < 16" "unhex a = Some x" "hexDigit x = a"
    using 1(2) isLowerHex_unhex [of a] by auto
  obtain y where y: "y < 16" "unhex b = Some y" "hexDigit y = b"
    using 1(2) isLowerHex_unhex [of b] by auto
  have "toHex (fromHex rest) = rest" using 1 x y by simp
  then show ?case using x y byte_of_nibbles [OF x(1) y(1)]
    by (simp del: of_nat_add of_nat_mult)
qed simp_all

lemma uuid_hex:
  assumes "isUUID u"
  shows "length (removeHyphens u) = 32 \<and> toHex (fromHex (removeHyphens u)) = removeHyphens u
         \<and> length (fromHex (removeHyphens u)) = 16"
proof -
  have r: "removeHyphens u = concat (split CHR ''-'' u)"
    by (simp add: removeHyphens_def filter_split)
  have "length (concat (split CHR ''-'' u)) = sum_list (map length (split CHR ''-'' u))"
    by (simp add: length_concat)
  then have len: "length (removeHyphens u) = 32" using assms by (simp add: isUUID_def r)
  have "list_all isLowerHex (concat (split CHR ''-'' u))"
    using assms by (auto simp add: isUUID_def list_all_iff)
  then have th: "toHex (fromHex (removeHyphens u)) = removeHyphens u"
    using len by (intro toHex_fromHex) (simp_all add: r)
  have "length (toHex (fromHex (removeHyphens u))) = 2 * length (fromHex (removeHyphens u))"
    by (rule length_toHex)
  then have "length (fromHex (removeHyphens u)) = 16" using th len by simp
  then show ?thesis using len th by simp
qed

lemma createPacket_fields:
  assumes b: "createPacket c cid dat host port uuid = Inr b"
    and idb: "length (clientIdBuffer cid uuid) \<le> 16"
  shows "subarray b 1 17 = clientIdBuffer cid uuid @ replicate (16 - length (clientIdBuffer cid uuid)) 0"
    and "subarray b 17 21 = ipBuffer host @ replicate (4 - length (ipBuffer host)) 0"
proof -
  have r: "0 \<le> c" "c \<le> 255" "0 \<le> port" "port \<le> 65535" "length dat \<le> 4294967295"
    using createPacket_Inr [OF b] by simp_all
  have ipb: "length (ipBuffer host) \<le> 4" by (simp add: ipBuffer_def alloc_def)
  have "Inr b = Inr ([of_int c] @ clientIdBuffer cid uuid
                @ replicate (16 - length (clientIdBuffer cid uuid)) 0
                @ ipBuffer host @ replicate (4 - length (ipBuffer host)) 0
                @ [of_int (port div 256), of_int port]
                @ [of_int (int (length dat) div 16777216), of_int (int (length dat) div 65536),
                   of_int (int (length dat) div 256), of_int (int (length dat))]
                @ dat)"
    using createPacket_layout [OF r idb ipb] b by simp
  then have eq: "b = [of_int c] @ (clientIdBuffer cid uuid
                 @ replicate (16 - length (clientIdBuffer cid uuid)) 0)
                @ (ipBuffer host @ replicate (4 - length (ipBuffer host)) 0)
                @ ([of_int (port div 256), of_int port]
                @ [of_int (int (length dat) div 16777216), of_int (int (length dat) div 65536),
                   of_int (int (length dat) div 256), of_int (int (length dat))]
                @ dat)"
    by simp
  show "subarray b 1 17 = clientIdBuffer cid uuid @ replicate (16 - length (clientIdBuffer cid uuid)) 0"
    using idb by (subst eq) (simp add: subarray_def)
  show "subarray b 17 21 = ipBuffer host @ replicate (4 - length (ipBuffer host)) 0"
    using idb ipb by (subst eq) (simp add: subarray_def)
qed
section \<open>Claims about the frame codec and the framer\<close>

lemma isLowerHex_hexDigit: "n < 16 \<Longrightarrow> isLowerHex (hexDigit n)"
proof -
  assume "n < 16"
  then have "n \<in> set [0..<16]" by simp
  then show ?thesis
    unfolding upt_conv_Cons_Cons
    apply (simp add: upt_rec)
    apply (elim disjE; simp add: isLowerHex_def hexDigit_def)
    done
qed

lemma toHex_lowerHex: "list_all isLowerHex (toHex bs)"
proof (induction bs)
  case Nil
  show ?case by simp
next
  case (Cons b bs)
  have "unat b div 16 < 16" using unat_byte_less [of b] by simp
  moreover have "unat b mod 16 < 16" by simp
  ultimately show ?case using Cons by (simp add: isLowerHex_hexDigit)
qed

lemma validId_toHex: "length bs = 16 \<Longrightarrow> validId (toHex bs)"
  by (simp add: validId_def length_toHex toHex_lowerHex)

lemma validId_unique:
  assumes "validId cid" and "fromHex cid = bs"
  shows "toHex bs = cid"
proof -
  have "list_all isLowerHex cid" "even (length cid)" using assms(1) by (simp_all add: validId_def)
  then have "toHex (fromHex cid) = cid" by (rule toHex_fromHex)
  then show ?thesis using assms(2) by simp
qed

text \<open>
  Claim C1 (framing round trip). For every list of frames with a 16-byte session id, a
  4-byte address and a payload whose length fits the 32-bit length field,
  \<open>createPacket\<close> encodes every frame, into the bytes of the wire layout, and however
  the concatenated encodings, followed by the bytes of an incomplete frame, are cut into
  chunks, the framer emits exactly the packets of these frames, in order, with the same
  command, session id, address, port and payload, and keeps exactly the bytes of the
  incomplete frame. The session id of an emitted packet is the string of 32 lower-case
  hex digits whose bytes are the id bytes of the frame: when the caller passes such a
  string to \<open>createPacket\<close>, the framer emits that string. The host of an emitted packet
  is a string that \<open>createPacket\<close> reads as the address bytes of the frame.
\<close>

theorem framing_round_trip:
  assumes "list_all frame_ok fs"
  shows "(\<exists>bs. map (\<lambda>f. encode f uuid) fs = map Inr bs)
         \<and> (\<forall>bs chunks rest.
              map (\<lambda>f. encode f uuid) fs = map Inr bs \<and> concat chunks = concat bs @ rest
                \<and> partial_frame rest
              \<longrightarrow> feed [] chunks = (map packet_of fs, rest))
         \<and> map (\<lambda>f. encode f uuid) fs = map (\<lambda>f. Inr (frame_bytes f)) fs
         \<and> (\<forall>f \<in> set fs.
              validId (clientId (packet_of f))
              \<and> fromHex (clientId (packet_of f)) = session_id f
              \<and> ipBuffer (targetHost (packet_of f)) = target_ip f
              \<and> cmd (packet_of f) = unat (frame_cmd f)
              \<and> targetPort (packet_of f) = unat (target_port f)
              \<and> data (packet_of f) = payload f
              \<and> (\<forall>cid. validId cid \<and> fromHex cid = session_id f
                    \<longrightarrow> clientId (packet_of f) = cid
                        \<and> createPacket (int (unat (frame_cmd f))) (JsString cid) (payload f)
                             (targetHost (packet_of f)) (int (unat (target_port f))) uuid
                            = Inr (frame_bytes f)))"
proof -
  have ok: "\<forall>f \<in> set fs. frame_ok f" using assms by (simp add: list_all_iff)
  have enc: "map (\<lambda>f. encode f uuid) fs = map Inr (map frame_bytes fs)"
    using ok by (simp add: encode_frame_bytes)
  have "feed [] chunks = (map packet_of fs, rest)"
    if h: "map (\<lambda>f. encode f uuid) fs = map Inr bs" "concat chunks = concat bs @ rest"
      "partial_frame rest" for bs chunks rest
  proof -
    have "map Inr bs = (map Inr (map frame_bytes fs) :: (error + buffer) list)"
      using h(1) enc by simp
    moreover have "inj (Inr :: buffer \<Rightarrow> error + buffer)" by (simp add: inj_def)
    ultimately have bs: "bs = map frame_bytes fs"
      using inj_map_eq_map by blast
    have "feed [] chunks = packetLoop ([] @ concat chunks)"
      by (rule feed_packetLoop [OF packetLoop_Nil])
    also have "\<dots> = packetLoop (concat (map frame_bytes fs) @ rest)"
      using h(2) bs by simp
    also have "\<dots> = (map packet_of fs, rest)"
      by (rule packetLoop_frames [OF ok h(3)])
    finally show ?thesis .
  qed
  then have rt: "\<forall>bs chunks rest.
              map (\<lambda>f. encode f uuid) fs = map Inr bs \<and> concat chunks = concat bs @ rest
                \<and> partial_frame rest
              \<longrightarrow> feed [] chunks = (map packet_of fs, rest)"
    by blast
  have lay: "map (\<lambda>f. encode f uuid) fs = map (\<lambda>f. Inr (frame_bytes f)) fs"
    using enc by (simp add: comp_def)
  have fields: "validId (clientId (packet_of f))
              \<and> fromHex (clientId (packet_of f)) = session_id f
              \<and> ipBuffer (targetHost (packet_of f)) = target_ip f
              \<and> cmd (packet_of f) = unat (frame_cmd f)
              \<and> targetPort (packet_of f) = unat (target_port f)
              \<and> data (packet_of f) = payload f
              \<and> (\<forall>cid. validId cid \<and> fromHex cid = session_id f
                    \<longrightarrow> clientId (packet_of f) = cid
                        \<and> createPacket (int (unat (frame_cmd f))) (JsString cid) (payload f)
                             (targetHost (packet_of f)) (int (unat (target_port f))) uuid
                            = Inr (frame_bytes f))"
    if f: "f \<in> set fs" for f
  proof -
    have fo: "frame_ok f" using ok f by blast
    then have id16: "length (session_id f) = 16" and ip4: "length (target_ip f) = 4"
      by (simp_all add: frame_ok_def)
    have v: "validId (clientId (packet_of f))"
      using id16 by (simp add: packet_of_def validId_toHex)
    have b: "fromHex (clientId (packet_of f)) = session_id f"
      by (simp add: packet_of_def fromHex_toHex)
    have ip: "ipBuffer (targetHost (packet_of f)) = target_ip f"
      using ipBuffer_dotted [OF ip4] by (simp add: packet_of_def dotted_def)
    have e: "encode f uuid = Inr (frame_bytes f)" by (rule encode_frame_bytes [OF fo])
    have u: "clientId (packet_of f) = cid
               \<and> createPacket (int (unat (frame_cmd f))) (JsString cid) (payload f)
                    (targetHost (packet_of f)) (int (unat (target_port f))) uuid
                   = Inr (frame_bytes f)"
      if c: "validId cid \<and> fromHex cid = session_id f" for cid
    proof -
      have "toHex (session_id f) = cid" using c validId_unique by blast
      then have "clientId (packet_of f) = cid" by (simp add: packet_of_def)
      then show ?thesis using e by (simp add: encode_def packet_of_def)
    qed
    have c3: "cmd (packet_of f) = unat (frame_cmd f)"
      "targetPort (packet_of f) = unat (target_port f)" "data (packet_of f) = payload f"
      by (simp_all add: packet_of_def)
    have u': "\<forall>cid. validId cid \<and> fromHex cid = session_id f
                \<longrightarrow> clientId (packet_of f) = cid
                    \<and> createPacket (int (unat (frame_cmd f))) (JsString cid) (payload f)
                         (targetHost (packet_of f)) (int (unat (target_port f))) uuid
                        = Inr (frame_bytes f)"
      by (intro allI impI) (rule u)
    show ?thesis
      by (intro conjI) (fact v, fact b, fact ip, fact c3(1), fact c3(2), fact c3(3), fact u')
  qed
  then have fl: "\<forall>f \<in> set fs.
              validId (clientId (packet_of f))
              \<and> fromHex (clientId (packet_of f)) = session_id f
              \<and> ipBuffer (targetHost (packet_of f)) = target_ip f
              \<and> cmd (packet_of f) = unat (frame_cmd f)
              \<and> targetPort (packet_of f) = unat (target_port f)
              \<and> data (packet_of f) = payload f
              \<and> (\<forall>cid. validId cid \<and> fromHex cid = session_id f
                    \<longrightarrow> clientId (packet_of f) = cid
                        \<and> createPacket (int (unat (frame_cmd f))) (JsString cid) (payload f)
                             (targetHost (packet_of f)) (int (unat (target_port f))) uuid
                            = Inr (frame_bytes f))"
    by (intro ballI)
  have ex: "\<exists>bs. map (\<lambda>f. encode f uuid) fs = map Inr bs" using enc by blast
  show ?thesis
    by (intro conjI) (fact ex, fact rt, fact lay, fact fl)
qed

theorem framing_round_trip_witness:
  "list_all frame_ok [example_data_frame, example_program_close_frame, example_disconnect_frame]
   \<and> feed [] (map (\<lambda>b. [b])
               (frame_bytes example_data_frame @ frame_bytes example_program_close_frame
                  @ frame_bytes example_disconnect_frame))
       = ([\<lparr>cmd = 1, clientId = ''123e4567e89b42d3a456426614174000'',
             targetHost = ''127.0.0.1'', targetPort = 9000, data = [104, 105]\<rparr>,
           \<lparr>cmd = 5, clientId = ''aabbccddeeff40118022334455667788'',
             targetHost = ''0.0.0.0'', targetPort = 0, data = []\<rparr>,
           \<lparr>cmd = 3, clientId = ''123e4567e89b42d3a456426614174000'',
             targetHost = ''127.0.0.1'', targetPort = 9000, data = []\<rparr>], [])
   \<and> createPacket 1 (JsString ''123e4567e89b42d3a456426614174000'') [104, 105]
        ''127.0.0.1'' 9000 example_uuid
       = Inr [1, 0x12, 0x3e, 0x45, 0x67, 0xe8, 0x9b, 0x42, 0xd3, 0xa4, 0x56, 0x42, 0x66,
              0x14, 0x17, 0x40, 0x00, 127, 0, 0, 1, 35, 40, 0, 0, 0, 2, 104, 105]"
proof -
  let ?fs = "[example_data_frame, example_program_close_frame, example_disconnect_frame]"
  let ?cid = "''123e4567e89b42d3a456426614174000''"
  have ok: "list_all frame_ok ?fs"
    by (simp add: frame_ok_def example_data_frame_def example_disconnect_frame_def
          example_program_close_frame_def)
  note rt = framing_round_trip [OF ok, of example_uuid]
  have enc: "map (\<lambda>f. encode f example_uuid) ?fs = map Inr (map frame_bytes ?fs)"
    using rt [THEN conjunct2, THEN conjunct2, THEN conjunct1] by simp
  have cc: "concat (map (\<lambda>b. [b])
              (frame_bytes example_data_frame @ frame_bytes example_program_close_frame
                 @ frame_bytes example_disconnect_frame))
            = concat (map frame_bytes ?fs) @ []"
    by simp
  have pf: "partial_frame []" by (simp add: partial_frame_def)
  have pk: "map packet_of ?fs
              = [\<lparr>cmd = 1, clientId = ''123e4567e89b42d3a456426614174000'',
                   targetHost = ''127.0.0.1'', targetPort = 9000, data = [104, 105]\<rparr>,
                 \<lparr>cmd = 5, clientId = ''aabbccddeeff40118022334455667788'',
                   targetHost = ''0.0.0.0'', targetPort = 0, data = []\<rparr>,
                 \<lparr>cmd = 3, clientId = ''123e4567e89b42d3a456426614174000'',
                   targetHost = ''127.0.0.1'', targetPort = 9000, data = []\<rparr>]"
    by code_simp
  from rt [THEN conjunct2, THEN conjunct1] enc cc pf
  have fd: "feed [] (map (\<lambda>b. [b])
               (frame_bytes example_data_frame @ frame_bytes example_program_close_frame
                  @ frame_bytes example_disconnect_frame))
          = (map packet_of ?fs, [])"
    by blast
  have v: "validId ?cid" by code_simp
  have "fromHex ?cid = [0x12, 0x3e, 0x45, 0x67, 0xe8, 0x9b, 0x42, 0xd3,
                        0xa4, 0x56, 0x42, 0x66, 0x14, 0x17, 0x40, 0x00]"
    by code_simp
  then have fh: "fromHex ?cid = session_id example_data_frame"
    by (simp add: example_data_frame_def)
  have m: "example_data_frame \<in> set ?fs" by simp
  from rt [THEN conjunct2, THEN conjunct2, THEN conjunct2, rule_format, OF m]
  have "\<forall>cid. validId cid \<and> fromHex cid = session_id example_data_frame
          \<longrightarrow> clientId (packet_of example_data_frame) = cid
              \<and> createPacket (int (unat (frame_cmd example_data_frame))) (JsString cid)
                   (payload example_data_frame) (targetHost (packet_of example_data_frame))
                   (int (unat (target_port example_data_frame))) example_uuid
                  = Inr (frame_bytes example_data_frame)"
    by blast
  then have "createPacket (int (unat (frame_cmd example_data_frame))) (JsString ?cid)
               (payload example_data_frame) (targetHost (packet_of example_data_frame))
               (int (unat (target_port example_data_frame))) example_uuid
             = Inr (frame_bytes example_data_frame)"
    using v fh by blast
  moreover have "targetHost (packet_of example_data_frame) = ''127.0.0.1''"
    using pk by simp
  ultimately have cp: "createPacket 1 (JsString ?cid) [104, 105] ''127.0.0.1'' 9000 example_uuid
       = Inr [1, 0x12, 0x3e, 0x45, 0x67, 0xe8, 0x9b, 0x42, 0xd3, 0xa4, 0x56, 0x42, 0x66,
              0x14, 0x17, 0x40, 0x00, 127, 0, 0, 1, 35, 40, 0, 0, 0, 2, 104, 105]"
    by (simp add: example_data_frame_def frame_bytes_def)
  show ?thesis using ok pk fd cp by simp
qed

lemma ipBuffer_zero_octet:
  assumes "i < 4"
    and "length (split CHR ''.'' host) \<le> i \<or> parseInt (split CHR ''.'' host ! i) = NaN"
  shows "(ipBuffer host @ replicate (4 - length (ipBuffer host)) 0) ! i = 0"
proof (cases "host = []")
  case True
  then show ?thesis using assms(1) by (simp add: ipBuffer_def alloc_def)
next
  case False
  have len: "length (ipBuffer host) = min 4 (length (split CHR ''.'' host))"
    using False by (simp add: ipBuffer_def ipParts_def)
  show ?thesis
  proof (cases "i < length (ipBuffer host)")
    case True
    then have "i < length (split CHR ''.'' host)" using len by simp
    then have "parseInt (split CHR ''.'' host ! i) = NaN" using assms(2) by auto
    then show ?thesis
      using True False \<open>i < length (split CHR ''.'' host)\<close>
      by (simp add: nth_append ipBuffer_def ipParts_def orZero_def toUint8_def)
  next
    case False
    then show ?thesis using assms(1) by (simp add: nth_append)
  qed
qed

lemma numberToString_0: "numberToString 0 = ''0''"
  by code_simp

lemma transform_frame:
  assumes "frame_ok f"
  shows "transform [] (frame_bytes f) = ([packet_of f], [])"
  using packetLoop_frame [OF assms, of "[]"] by (simp add: transform_def packetLoop_Nil)

lemma split_dotted:
  assumes "ip \<noteq> []"
  shows "split CHR ''.'' (join CHR ''.'' (map (\<lambda>b. numberToString (unat b)) (ip :: buffer)))
           = map (\<lambda>b. numberToString (unat b)) ip"
  using assms by (intro split_join) (auto simp add: numberToString_no_dot)

text \<open>
  Claim C9 (non-IPv4 host encoding). In every packet that \<open>createPacket\<close> builds
  (the session id filling at most its 16 bytes), an octet of \<open>targetHost\<close> that is
  missing or that \<open>parseInt\<close> cannot read is encoded as a zero byte of the address
  field; the framer on the other side shows that octet as \<open>0\<close> in its host string,
  and the egress side dials the host string of the packet. For \<open>localhost\<close> the
  address is \<open>0.0.0.0\<close>.
\<close>

theorem host_octets_zeroed:
  assumes "createPacket c cid dat host port uuid = Inr b"
    and "length (clientIdBuffer cid uuid) \<le> 16"
    and "i < 4"
    and "length (split CHR ''.'' host) \<le> i \<or> parseInt (split CHR ''.'' host ! i) = NaN"
  shows "b ! (17 + i) = 0
         \<and> split CHR ''.'' (targetHost (decodePacket b)) ! i = ''0''
         \<and> (\<forall>t. int (cmd (decodePacket b)) = CMD_DATA
                  \<and> map_of (clients t) (clientId (decodePacket b)) = None
              \<longrightarrow> sk_targetHost (last (targetSockets (handlePacket (decodePacket b) t)))
                    = targetHost (decodePacket b)
                  \<and> sk_dial (last (targetSockets (handlePacket (decodePacket b) t)))
                    = Connecting)"
proof -
  define P where "P = ipBuffer host @ replicate (4 - length (ipBuffer host)) 0"
  have ipb: "length (ipBuffer host) \<le> 4" by (simp add: ipBuffer_def alloc_def)
  have lenP: "length P = 4" using ipb by (simp add: P_def)
  have sub: "subarray b 17 21 = P"
    unfolding P_def by (rule createPacket_fields(2) [OF assms(1) assms(2)])
  have lb: "length b = 27 + length dat" using createPacket_Inr [OF assms(1)] by simp
  have zero: "P ! i = 0" unfolding P_def by (rule ipBuffer_zero_octet [OF assms(3) assms(4)])
  have "subarray b 17 21 ! i = b ! (17 + i)"
    using assms(3) lb by (simp add: subarray_def)
  then have a: "b ! (17 + i) = 0" using sub zero by simp
  have "P \<noteq> []" using lenP by auto
  then have "split CHR ''.'' (targetHost (decodePacket b)) = map (\<lambda>b. numberToString (unat b)) P"
    by (simp add: decodePacket_def sub split_dotted)
  then have "split CHR ''.'' (targetHost (decodePacket b)) ! i = numberToString (unat (P ! i))"
    using assms(3) lenP by simp
  then have b2: "split CHR ''.'' (targetHost (decodePacket b)) ! i = ''0''"
    using zero by (simp add: numberToString_0)
  have c: "sk_targetHost (last (targetSockets (handlePacket p t))) = targetHost p
           \<and> sk_dial (last (targetSockets (handlePacket p t))) = Connecting"
    if "int (cmd p) = CMD_DATA" "map_of (clients t) (clientId p) = None" for p t
    using that by (simp add: handlePacket_def createTargetConnection_def)
  show ?thesis using a b2 c by blast
qed

theorem host_octets_zeroed_witness:
  "createPacket CMD_DATA (JsString ''123e4567e89b42d3a456426614174000'') [104, 105]
     ''localhost'' 22 example_uuid = Inr localhost_packet
   \<and> localhost_packet ! 18 = 0
   \<and> targetHost (decodePacket localhost_packet) = ''0.0.0.0''
   \<and> split CHR ''.'' (targetHost (decodePacket localhost_packet)) ! 1 = ''0''
   \<and> map sk_targetHost (targetSockets (egress_run (egress_init example_env)
        [SerialData localhost_packet])) = [''0.0.0.0'']"
proof -
  have enc: "createPacket CMD_DATA (JsString ''123e4567e89b42d3a456426614174000'') [104, 105]
               ''localhost'' 22 example_uuid = Inr localhost_packet"
    by code_simp
  have idb: "length (clientIdBuffer (JsString ''123e4567e89b42d3a456426614174000'')
               example_uuid) \<le> 16"
    by code_simp
  have i: "(1::nat) < 4" by simp
  have miss: "length (split CHR ''.'' ''localhost'') \<le> 1
              \<or> parseInt (split CHR ''.'' ''localhost'' ! 1) = NaN"
    by code_simp
  have ok: "frame_ok localhost_frame" by (simp add: frame_ok_def localhost_frame_def)
  have fb: "frame_bytes localhost_frame = localhost_packet"
    by (simp add: frame_bytes_def localhost_frame_def localhost_packet_def)
  have dec: "decodePacket localhost_packet = packet_of localhost_frame"
    using decodePacket_frame [OF ok, of "[]"] fb by simp
  have dot: "dotted [0, 0, 0, 0] = ''0.0.0.0''" by code_simp
  have host: "targetHost (decodePacket localhost_packet) = ''0.0.0.0''"
    by (simp add: dec packet_of_def localhost_frame_def dot)
  have tr: "transform [] localhost_packet = ([packet_of localhost_frame], [])"
    using transform_frame [OF ok] fb by simp
  have dial: "map sk_targetHost (targetSockets (egress_run (egress_init example_env)
                [SerialData localhost_packet])) = [''0.0.0.0'']"
    by (simp add: egress_run_def egress_step.simps egress_init_def egress_serialData_def tr
          handlePacket_def
          packet_of_def localhost_frame_def CMD_DATA_def createTargetConnection_def dot)
  from host_octets_zeroed [OF enc idb i miss]
  have "localhost_packet ! 18 = 0
        \<and> split CHR ''.'' (targetHost (decodePacket localhost_packet)) ! 1 = ''0''"
    by simp
  then show ?thesis using enc host dial by simp
qed

lemma clientIdBuffer_random:
  assumes "case cid of JsOther \<Rightarrow> True
           | JsString s \<Rightarrow> length s \<noteq> 32 \<and> CHR ''-'' \<notin> set s"
  shows "clientIdBuffer cid uuid = fromHex (removeHyphens uuid)"
  using assms by (cases cid) (simp_all add: clientIdBuffer_def)

text \<open>
  Where the substitution happens: for a \<open>clientId\<close> argument that is not a string, or is
  a string of a length other than 32 with no hyphen in it, \<open>createPacket\<close> returns a
  packet whose session id is the id that \<open>crypto.randomUUID()\<close> returned.
\<close>

lemma random_id_other_lengths:
  assumes "case cid of JsOther \<Rightarrow> True
           | JsString s \<Rightarrow> length s \<noteq> 32 \<and> CHR ''-'' \<notin> set s"
    and "isUUID uuid"
    and "0 \<le> c" "c \<le> 255" "0 \<le> port" "port \<le> 65535" "length dat \<le> 4294967295"
  shows "\<exists>b. createPacket c cid dat host port uuid = Inr b
             \<and> subarray b 1 17 = fromHex (removeHyphens uuid)
             \<and> clientId (decodePacket b) = removeHyphens uuid"
proof -
  obtain b where b: "createPacket c cid dat host port uuid = Inr b"
    using createPacket_succeeds [OF assms(3-7)] by blast
  have idb: "clientIdBuffer cid uuid = fromHex (removeHyphens uuid)"
    by (rule clientIdBuffer_random [OF assms(1)])
  have u: "toHex (fromHex (removeHyphens uuid)) = removeHyphens uuid"
    "length (fromHex (removeHyphens uuid)) = 16"
    using uuid_hex [OF assms(2)] by simp_all
  have "subarray b 1 17 = clientIdBuffer cid uuid
          @ replicate (16 - length (clientIdBuffer cid uuid)) 0"
    using b by (rule createPacket_fields(1)) (simp add: idb u)
  then have sub: "subarray b 1 17 = fromHex (removeHyphens uuid)" by (simp add: idb u)
  then have "clientId (decodePacket b) = removeHyphens uuid"
    by (simp add: decodePacket_def u)
  then show ?thesis using b sub by blast
qed

lemma random_id_example:
  "createPacket CMD_DISCONNECT (JsString ''client1'') [] ''10.0.0.7'' 80 example_uuid
     = Inr [3, 0x12, 0x3e, 0x45, 0x67, 0xe8, 0x9b, 0x42, 0xd3, 0xa4, 0x56, 0x42, 0x66,
            0x14, 0x17, 0x40, 0x00, 10, 0, 0, 7, 0, 80, 0, 0, 0, 0]"
  by code_simp


section \<open>Properties of the shutdown sequences\<close>

lemma closeSerial_fields [simp]:
  "wire (closeSerial s) = wire s" "exitCode (closeSerial s) = exitCode s"
  "env (closeSerial s) = env s" "streamBuffer (closeSerial s) = streamBuffer s"
  by (simp_all add: closeSerial_def)

lemma serialWrite_fields [simp]:
  "wire (serialWrite b s) = wire s @ [b]" "exitCode (serialWrite b s) = exitCode s"
  "env (serialWrite b s) = env s" "serialOpen (serialWrite b s) = serialOpen s"
  "streamBuffer (serialWrite b s) = streamBuffer s"
  by (simp_all add: serialWrite_def)

lemma serialWrite_egress [simp]:
  "clients (serialWrite b t) = clients t" "targetSockets (serialWrite b t) = targetSockets t"
  by (simp_all add: serialWrite_def)

lemma serialWrite_ingress [simp]:
  "clientsByPort (serialWrite b s) = clientsByPort s"
  "clientSockets (serialWrite b s) = clientSockets s"
  "portMappings (serialWrite b s) = portMappings s"
  "listening (serialWrite b s) = listening s" "immediates (serialWrite b s) = immediates s"
  by (simp_all add: serialWrite_def)

text \<open>A port that \<open>writeUInt16BE\<close> accepts.\<close>

lemma createPacket_port:
  assumes "0 \<le> c" "c \<le> 255" "length dat \<le> 4294967295"
  shows "(\<exists>b. createPacket c cid dat host port uuid = Inr b) = (0 \<le> port \<and> port \<le> 65535)"
  using createPacket_succeeds [OF assms(1,2) _ _ assms(3), of port cid host uuid]
    createPacket_Inr [of c cid dat host port uuid]
  by auto

lemma notifyClients_wire:
  "serialOpen t \<Longrightarrow>
   \<exists>ds. wire (snd (notifyClients cs t)) = wire t @ ds
        \<and> list_all (\<lambda>d. readUInt8 d 0 = 3) ds
        \<and> fst (notifyClients cs t) = (\<not> list_all (\<lambda>uc. client_targetPort (snd uc) \<le> 65535) cs)"
proof (induction cs arbitrary: t)
  case Nil
  show ?case by simp
next
  case (Cons x cs)
  obtain uuid c where x: "x = (uuid, c)" by (cases x)
  show ?case
  proof (cases "createPacket CMD_DISCONNECT (JsString uuid) [] (client_targetHost c)
                  (int (client_targetPort c)) (randomUUID (env t))")
    case (Inl e)
    have "\<not> (\<exists>b. createPacket CMD_DISCONNECT (JsString uuid) [] (client_targetHost c)
                  (int (client_targetPort c)) (randomUUID (env t)) = Inr b)"
      using Inl by simp
    then have "\<not> client_targetPort c \<le> 65535"
      by (subst (asm) createPacket_port) (simp_all add: CMD_DISCONNECT_def)
    then show ?thesis using Inl Cons.prems x by simp
  next
    case (Inr b)
    have "\<exists>b. createPacket CMD_DISCONNECT (JsString uuid) [] (client_targetHost c)
                  (int (client_targetPort c)) (randomUUID (env t)) = Inr b"
      using Inr by blast
    then have p: "client_targetPort c \<le> 65535"
      by (subst (asm) createPacket_port) (simp_all add: CMD_DISCONNECT_def)
    have cb: "readUInt8 b 0 = 3" using createPacket_cmd [OF Inr] by (simp add: CMD_DISCONNECT_def)
    have "serialOpen (serialWrite b t)" using Cons.prems by simp
    from Cons.IH [OF this] obtain ds where
      ds: "wire (snd (notifyClients cs (serialWrite b t))) = wire (serialWrite b t) @ ds"
        "list_all (\<lambda>d. readUInt8 d 0 = 3) ds"
        "fst (notifyClients cs (serialWrite b t))
           = (\<not> list_all (\<lambda>uc. client_targetPort (snd uc) \<le> 65535) cs)"
      by blast
    have "wire (snd (notifyClients (x # cs) t)) = wire t @ (b # ds)"
      using Inr Cons.prems x ds(1) by simp
    moreover have "list_all (\<lambda>d. readUInt8 d 0 = 3) (b # ds)" using cb ds(2) by simp
    moreover have "fst (notifyClients (x # cs) t)
                     = (\<not> list_all (\<lambda>uc. client_targetPort (snd uc) \<le> 65535) (x # cs))"
      using Inr Cons.prems x ds(3) p by simp
    ultimately show ?thesis by blast
  qed
qed

lemma notifyClients_closed:
  "\<not> serialOpen t \<Longrightarrow> notifyClients cs t = (False, t)"
  by (induction cs) auto

lemma disconnectAll_wire:
  "\<exists>ds. wire (snd (disconnectAll cs s)) = wire s @ ds
        \<and> list_all (\<lambda>d. readUInt8 d 0 = 3) ds
        \<and> clientSockets (snd (disconnectAll cs s)) = clientSockets s
        \<and> env (snd (disconnectAll cs s)) = env s
        \<and> serialOpen (snd (disconnectAll cs s)) = serialOpen s
        \<and> exitCode (snd (disconnectAll cs s)) = exitCode s
        \<and> fst (disconnectAll cs s)
            = (\<not> list_all (\<lambda>ch. 0 \<le> remotePort (ck_mapping (clientSockets s ! snd ch))
                               \<and> remotePort (ck_mapping (clientSockets s ! snd ch)) \<le> 65535) cs)"
proof (induction cs arbitrary: s)
  case Nil
  show ?case by simp
next
  case (Cons x cs)
  obtain cid h where x: "x = (cid, h)" by (cases x)
  let ?port = "remotePort (ck_mapping (clientSockets s ! h))"
  let ?cp = "createPacket CMD_DISCONNECT (JsString cid) []
               (remoteHost (ck_mapping (clientSockets s ! h))) ?port (randomUUID (env s))"
  have pq: "(\<exists>b. ?cp = Inr b) = (0 \<le> ?port \<and> ?port \<le> 65535)"
    by (rule createPacket_port) (simp_all add: CMD_DISCONNECT_def)
  show ?case
  proof (cases ?cp)
    case (Inl e)
    then have np: "\<not> (0 \<le> ?port \<and> ?port \<le> 65535)" using pq by simp
    from Cons.IH [of s] obtain ds where
      ds: "wire (snd (disconnectAll cs s)) = wire s @ ds" "list_all (\<lambda>d. readUInt8 d 0 = 3) ds"
        "clientSockets (snd (disconnectAll cs s)) = clientSockets s"
        "env (snd (disconnectAll cs s)) = env s"
        "serialOpen (snd (disconnectAll cs s)) = serialOpen s"
        "exitCode (snd (disconnectAll cs s)) = exitCode s"
      by blast
    show ?thesis using Inl x ds np by (intro exI [of _ ds]) auto
  next
    case (Inr b)
    then have p: "0 \<le> ?port \<and> ?port \<le> 65535" using pq by blast
    have cb: "readUInt8 b 0 = 3" using createPacket_cmd [OF Inr] by (simp add: CMD_DISCONNECT_def)
    from Cons.IH [of "serialWrite b s"] obtain ds where
      ds: "wire (snd (disconnectAll cs (serialWrite b s))) = wire (serialWrite b s) @ ds"
        "list_all (\<lambda>d. readUInt8 d 0 = 3) ds"
        "clientSockets (snd (disconnectAll cs (serialWrite b s))) = clientSockets (serialWrite b s)"
        "env (snd (disconnectAll cs (serialWrite b s))) = env (serialWrite b s)"
        "serialOpen (snd (disconnectAll cs (serialWrite b s))) = serialOpen (serialWrite b s)"
        "exitCode (snd (disconnectAll cs (serialWrite b s))) = exitCode (serialWrite b s)"
        "fst (disconnectAll cs (serialWrite b s))
           = (\<not> list_all (\<lambda>ch. 0 \<le> remotePort (ck_mapping (clientSockets (serialWrite b s) ! snd ch))
                 \<and> remotePort (ck_mapping (clientSockets (serialWrite b s) ! snd ch)) \<le> 65535) cs)"
      by blast
    have "wire (snd (disconnectAll (x # cs) s)) = wire s @ (b # ds)"
      using Inr x ds(1) by simp
    moreover have "list_all (\<lambda>d. readUInt8 d 0 = 3) (b # ds)" using cb ds(2) by simp
    ultimately show ?thesis using Inr x ds(3-7) p by (intro exI [of _ "b # ds"]) simp
  qed
qed

subsection \<open>The egress sequence\<close>

lemma mark_fields [simp]:
  "wire (markClosed h s) = wire s" "exitCode (markClosed h s) = exitCode s"
  "serialOpen (markClosed h s) = serialOpen s" "env (markClosed h s) = env s"
  "clients (markClosed h s) = clients s"
  "wire (markDestroyed h s) = wire s" "exitCode (markDestroyed h s) = exitCode s"
  "serialOpen (markDestroyed h s) = serialOpen s" "env (markDestroyed h s) = env s"
  "clients (markDestroyed h s) = clients s"
  by (simp_all add: markClosed_def markDestroyed_def)

lemma endTargets_fields [simp]:
  "wire (endTargets hs s) = wire s" "exitCode (endTargets hs s) = exitCode s"
  "serialOpen (endTargets hs s) = serialOpen s" "env (endTargets hs s) = env s"
  "clients (endTargets hs s) = clients s"
  unfolding endTargets_def
  by (induction hs arbitrary: s; simp add: socketEnd_def)+

lemma notifyClients_fields [simp]:
  "clients (snd (notifyClients cs s)) = clients s"
  "targetSockets (snd (notifyClients cs s)) = targetSockets s"
  "serialOpen (snd (notifyClients cs s)) = serialOpen s"
  "env (snd (notifyClients cs s)) = env s"
  "exitCode (snd (notifyClients cs s)) = exitCode s"
  by (induction cs s rule: notifyClients.induct; simp split: sum.splits)+

lemma list_all_update_same:
  assumes "f y = f (xs ! h)"
  shows "list_all (\<lambda>k. P (f k)) (xs[h := y]) = list_all (\<lambda>k. P (f k)) xs"
proof (cases "h < length xs")
  case True
  then show ?thesis using assms by (auto simp add: list_all_length nth_list_update)
next
  case False
  then show ?thesis by (simp add: list_update_beyond)
qed

lemma portsInRange_keep [simp]:
  "portsInRange (markClosed h s) = portsInRange s"
  "portsInRange (markDestroyed h s) = portsInRange s"
  "portsInRange (serialWrite b s) = portsInRange s"
  "portsInRange (s\<lparr>clients := c\<rparr>) = portsInRange s"
  "portsInRange (snd (notifyClients cs s)) = portsInRange s"
proof -
  have u: "list_all (\<lambda>k. sk_targetPort k \<le> 65535) (xs[h := y])
             = list_all (\<lambda>k. sk_targetPort k \<le> 65535) xs"
    if "sk_targetPort y = sk_targetPort (xs ! h)" for xs :: "target_socket list" and h y
    using that by (rule list_all_update_same)
  show "portsInRange (markClosed h s) = portsInRange s"
    "portsInRange (markDestroyed h s) = portsInRange s"
    by (simp_all add: portsInRange_def markClosed_def markDestroyed_def u)
  show "portsInRange (serialWrite b s) = portsInRange s"
    "portsInRange (s\<lparr>clients := c\<rparr>) = portsInRange s"
    "portsInRange (snd (notifyClients cs s)) = portsInRange s"
    by (simp_all add: portsInRange_def)
qed

lemma portsInRange_endTargets [simp]: "portsInRange (endTargets hs s) = portsInRange s"
proof -
  have u: "list_all (\<lambda>k. sk_targetPort k \<le> 65535) (xs[h := y])
             = list_all (\<lambda>k. sk_targetPort k \<le> 65535) xs"
    if "sk_targetPort y = sk_targetPort (xs ! h)" for xs :: "target_socket list" and h y
    using that by (rule list_all_update_same)
  show ?thesis
    unfolding endTargets_def
    by (induction hs arbitrary: s) (simp_all add: portsInRange_def socketEnd_def u)
qed


lemma program_close_packet:
  "\<exists>b. createPacket CMD_PROGRAM_CLOSE cid [] [] 0 uuid = Inr b"
  by (rule createPacket_succeeds) (simp_all add: CMD_PROGRAM_CLOSE_def)

text \<open>The state after step 1 of the egress sequence.\<close>

lemma egress_first_step:
  obtains t1 where
    "(if serialOpen t then
        (case createPacket CMD_PROGRAM_CLOSE (JsString (removeHyphens (randomUUID (env t))))
                [] [] 0 (randomUUID (env t)) of
           Inl e \<Rightarrow> Inl e
         | Inr programClosePacket \<Rightarrow> Inr (serialWrite programClosePacket t))
      else Inr t) = Inr t1"
    "clients t1 = clients t" "targetSockets t1 = targetSockets t" "serialOpen t1 = serialOpen t"
    "env t1 = env t" "exitCode t1 = exitCode t"
    "serialOpen t \<Longrightarrow> \<exists>pc. wire t1 = wire t @ [pc] \<and> readUInt8 pc 0 = 5"
    "\<not> serialOpen t \<Longrightarrow> t1 = t"
proof (cases "serialOpen t")
  case True
  obtain pc where pc: "createPacket CMD_PROGRAM_CLOSE
      (JsString (removeHyphens (randomUUID (env t)))) [] [] 0 (randomUUID (env t)) = Inr pc"
    using program_close_packet by blast
  have c: "readUInt8 pc 0 = 5" using createPacket_cmd [OF pc] by (simp add: CMD_PROGRAM_CLOSE_def)
  show ?thesis
    by (rule that [of "serialWrite pc t"]) (use True pc c in simp_all)
next
  case False
  show ?thesis by (rule that [of t]) (use False in simp_all)
qed

lemma egress_shutdown_unfold:
  assumes "(if serialOpen t then
        (case createPacket CMD_PROGRAM_CLOSE (JsString (removeHyphens (randomUUID (env t))))
                [] [] 0 (randomUUID (env t)) of
           Inl e \<Rightarrow> Inl e
         | Inr programClosePacket \<Rightarrow> Inr (serialWrite programClosePacket t))
      else Inr t) = Inr t1"
  shows "egress_gracefulShutdown t =
           (if fst (notifyClients (clients t1) t1)
            then (snd (notifyClients (clients t1) t1))\<lparr>exitCode := Some 1\<rparr>
            else if fst (awaitTargets
                      (waitEvents (env t1) (waitedTargets (snd (notifyClients (clients t1) t1))))
                      (endTargets (waitedTargets (snd (notifyClients (clients t1) t1)))
                         (snd (notifyClients (clients t1) t1))))
            then snd (awaitTargets
                      (waitEvents (env t1) (waitedTargets (snd (notifyClients (clients t1) t1))))
                      (endTargets (waitedTargets (snd (notifyClients (clients t1) t1)))
                         (snd (notifyClients (clients t1) t1))))
            else (closeSerial ((snd (awaitTargets
                      (waitEvents (env t1) (waitedTargets (snd (notifyClients (clients t1) t1))))
                      (endTargets (waitedTargets (snd (notifyClients (clients t1) t1)))
                         (snd (notifyClients (clients t1) t1)))))\<lparr>clients := []\<rparr>))
                   \<lparr>exitCode := Some 0\<rparr>)"
  by (subst egress_gracefulShutdown.simps) (simp add: assms Let_def)


text \<open>
  The exit status of the egress sequence. A second call of \<open>gracefulShutdown\<close>, made by
  the \<open>uncaughtException\<close> handler during the wait, finds only clients that the first
  call has already notified, so it exits with status 0 as well.
\<close>

lemma egress_shutdown_good:
  "\<not> (serialOpen s \<and> \<not> list_all (\<lambda>uc. client_targetPort (snd uc) \<le> 65535) (clients s))
     \<longrightarrow> exitCode (egress_gracefulShutdown s) = Some 0"
  "\<not> (serialOpen t \<and> \<not> list_all (\<lambda>uc. client_targetPort (snd uc) \<le> 65535) (clients t))
     \<longrightarrow> fst (awaitTargets evs t) \<longrightarrow> exitCode (snd (awaitTargets evs t)) = Some 0"
proof (induction s and evs t rule: egress_gracefulShutdown_awaitTargets.induct)
  case (1 s)
  show ?case
  proof
    assume good: "\<not> (serialOpen s
        \<and> \<not> list_all (\<lambda>uc. client_targetPort (snd uc) \<le> 65535) (clients s))"
    obtain s1 where s1: "(if serialOpen s then
        (case createPacket CMD_PROGRAM_CLOSE (JsString (removeHyphens (randomUUID (env s))))
                [] [] 0 (randomUUID (env s)) of
           Inl e \<Rightarrow> Inl e
         | Inr programClosePacket \<Rightarrow> Inr (serialWrite programClosePacket s))
      else Inr s) = Inr s1"
      and f: "clients s1 = clients s" "serialOpen s1 = serialOpen s"
      using egress_first_step [of s] by metis
    let ?r = "notifyClients (clients s1) s1"
    let ?hs = "waitedTargets (snd ?r)"
    let ?w = "awaitTargets (waitEvents (env s1) ?hs) (endTargets ?hs (snd ?r))"
    have nr: "\<not> fst ?r"
    proof (cases "serialOpen s1")
      case True
      then show ?thesis using notifyClients_wire [OF True, of "clients s1"] good f by auto
    next
      case False
      then show ?thesis by (simp add: notifyClients_closed)
    qed
    have g: "\<not> (serialOpen (endTargets ?hs (snd ?r))
        \<and> \<not> list_all (\<lambda>uc. client_targetPort (snd uc) \<le> 65535)
               (clients (endTargets ?hs (snd ?r))))"
      using good f by simp
    have e: "env (snd ?r) = env s1" by simp
    from "1.IH" [OF s1 refl refl nr refl] g
    have ih: "fst ?w \<longrightarrow> exitCode (snd ?w) = Some 0" unfolding e by blast
    show "exitCode (egress_gracefulShutdown s) = Some 0"
      unfolding egress_shutdown_unfold [OF s1] using nr ih by simp
  qed
next
  case (2 s)
  show ?case by (simp add: awaitTargets.simps)
next
  case (3 h evs s)
  then show ?case by (simp add: awaitTargets.simps)
next
  case (4 h evs s)
  let ?k = "targetSockets s ! h"
  let ?s1 = "(markClosed h s)\<lparr>clients := map_delete (clients s) (sk_clientId ?k)\<rparr>"
  show ?case
  proof (intro impI)
    assume good: "\<not> (serialOpen s
        \<and> \<not> list_all (\<lambda>uc. client_targetPort (snd uc) \<le> 65535) (clients s))"
      and thrown: "fst (awaitTargets (Closes h # evs) s)"
    have g1: "\<not> (serialOpen ?s1
        \<and> \<not> list_all (\<lambda>uc. client_targetPort (snd uc) \<le> 65535) (clients ?s1))"
      using good by (auto simp add: map_delete_def list_all_iff)
    show "exitCode (snd (awaitTargets (Closes h # evs) s)) = Some 0"
    proof (cases "h < length (targetSockets s) \<and> \<not> closed (targetSockets s ! h)")
      case False
      have e: "awaitTargets (Closes h # evs) s = awaitTargets evs s"
        by (subst awaitTargets.simps) (simp only: False if_False simp_thms)
      show ?thesis using "4.IH"(5) [OF False] good thrown unfolding e by blast
    next
      case True
      show ?thesis
      proof (cases "sk_dial ?k = Established")
        case False
        have e: "awaitTargets (Closes h # evs) s = awaitTargets evs (markClosed h s)"
          by (subst awaitTargets.simps) (simp only: True False if_True if_False simp_thms)
        have "\<not> (serialOpen (markClosed h s)
            \<and> \<not> list_all (\<lambda>uc. client_targetPort (snd uc) \<le> 65535)
                   (clients (markClosed h s)))"
          using good by simp
        then show ?thesis using "4.IH"(4) [OF True False] thrown unfolding e by blast
      next
        case est: True
        show ?thesis
        proof (cases "serialOpen ?s1")
          case False
          have e: "awaitTargets (Closes h # evs) s = awaitTargets evs ?s1"
            by (subst awaitTargets.simps) (simp only: True est False if_True if_False Let_def simp_thms)
          show ?thesis using "4.IH"(3) [OF True est refl refl False] g1 thrown
            unfolding e by blast
        next
          case so: True
          show ?thesis
          proof (cases "createPacket CMD_DISCONNECT (JsString (sk_clientId ?k)) []
                          (sk_targetHost ?k) (int (sk_targetPort ?k)) (randomUUID (env ?s1))")
            case (Inl a)
            have e: "awaitTargets (Closes h # evs) s = (True, egress_gracefulShutdown ?s1)"
              by (subst awaitTargets.simps)
                 (simp only: True est so Inl if_True Let_def sum.case simp_thms)
            show ?thesis using "4.IH"(1) [OF True est refl refl so Inl] g1
              unfolding e by simp
          next
            case (Inr b)
            have e: "awaitTargets (Closes h # evs) s = awaitTargets evs (serialWrite b ?s1)"
              by (subst awaitTargets.simps)
                 (simp only: True est so Inr if_True Let_def sum.case simp_thms)
            have "\<not> (serialOpen (serialWrite b ?s1)
                \<and> \<not> list_all (\<lambda>uc. client_targetPort (snd uc) \<le> 65535)
                       (clients (serialWrite b ?s1)))"
              using g1 by simp
            then show ?thesis using "4.IH"(2) [OF True est refl refl so Inr] thrown
              unfolding e by blast
          qed
        qed
      qed
    qed
  qed
qed

lemma egress_shutdown_exit:
  "exitCode (egress_gracefulShutdown t)
     = Some (if serialOpen t
               \<and> \<not> list_all (\<lambda>uc. client_targetPort (snd uc) \<le> 65535) (clients t)
             then 1 else 0)"
proof (cases "serialOpen t
               \<and> \<not> list_all (\<lambda>uc. client_targetPort (snd uc) \<le> 65535) (clients t)")
  case False
  then show ?thesis using egress_shutdown_good(1) [of t] by simp
next
  case True
  obtain t1 where t1: "(if serialOpen t then
        (case createPacket CMD_PROGRAM_CLOSE (JsString (removeHyphens (randomUUID (env t))))
                [] [] 0 (randomUUID (env t)) of
           Inl e \<Rightarrow> Inl e
         | Inr programClosePacket \<Rightarrow> Inr (serialWrite programClosePacket t))
      else Inr t) = Inr t1"
    and f: "clients t1 = clients t" "serialOpen t1 = serialOpen t"
    using egress_first_step [of t] by metis
  have o: "serialOpen t1" using True f by simp
  have "fst (notifyClients (clients t1) t1)"
    using notifyClients_wire [OF o, of "clients t1"] True f by auto
  then show ?thesis unfolding egress_shutdown_unfold [OF t1] using True by simp
qed


subsection \<open>The ingress sequence\<close>

lemma map_update_same:
  assumes "f y = f (xs ! h)"
  shows "map f (xs[h := y]) = map f xs"
proof (cases "h < length xs")
  case True
  then show ?thesis using assms by (simp add: map_update list_update_same_conv)
next
  case False
  then show ?thesis by (simp add: list_update_beyond)
qed

lemma set_waitEvents: "Closes h \<in> set (waitEvents e hs) \<Longrightarrow> h \<in> set hs"
  by (auto simp add: waitEvents_def)

lemma markClient_fields [simp]:
  "wire (markClientClosed h s) = wire s" "exitCode (markClientClosed h s) = exitCode s"
  "serialOpen (markClientClosed h s) = serialOpen s" "env (markClientClosed h s) = env s"
  "clientsByPort (markClientClosed h s) = clientsByPort s"
  "map ck_mapping (clientSockets (markClientClosed h s)) = map ck_mapping (clientSockets s)"
  "wire (markClientDestroyed h s) = wire s" "exitCode (markClientDestroyed h s) = exitCode s"
  "serialOpen (markClientDestroyed h s) = serialOpen s" "env (markClientDestroyed h s) = env s"
  "clientsByPort (markClientDestroyed h s) = clientsByPort s"
  "map ck_mapping (clientSockets (markClientDestroyed h s)) = map ck_mapping (clientSockets s)"
  by (simp_all add: markClientClosed_def markClientDestroyed_def map_update_same)

lemma endClients_fields [simp]:
  "wire (endClients hs s) = wire s" "exitCode (endClients hs s) = exitCode s"
  "serialOpen (endClients hs s) = serialOpen s" "env (endClients hs s) = env s"
  "clientsByPort (endClients hs s) = clientsByPort s"
  "map ck_mapping (clientSockets (endClients hs s)) = map ck_mapping (clientSockets s)"
  unfolding endClients_def
  by (induction hs arbitrary: s; simp add: clientEnd_def map_update_same)+

lemma mapping_nth:
  assumes "map ck_mapping xs = map ck_mapping ys"
  shows "length xs = length ys"
    and "h < length ys \<Longrightarrow> ck_mapping (xs ! h) = ck_mapping (ys ! h)"
proof -
  show l: "length xs = length ys" using assms by (rule map_eq_imp_length_eq)
  show "ck_mapping (xs ! h) = ck_mapping (ys ! h)" if "h < length ys"
  proof -
    have "map ck_mapping xs ! h = map ck_mapping ys ! h" using assms by simp
    then show ?thesis using that l by simp
  qed
qed

text \<open>The \<open>close\<close> listener of a client socket deletes the client and touches nothing else.\<close>

lemma forget_fields:
  fixes m :: ingress
  shows "wire (case x of Some cs \<Rightarrow> m\<lparr>clientsByPort := f cs\<rparr> | None \<Rightarrow> m) = wire m"
    "exitCode (case x of Some cs \<Rightarrow> m\<lparr>clientsByPort := f cs\<rparr> | None \<Rightarrow> m) = exitCode m"
    "serialOpen (case x of Some cs \<Rightarrow> m\<lparr>clientsByPort := f cs\<rparr> | None \<Rightarrow> m) = serialOpen m"
    "env (case x of Some cs \<Rightarrow> m\<lparr>clientsByPort := f cs\<rparr> | None \<Rightarrow> m) = env m"
    "clientSockets (case x of Some cs \<Rightarrow> m\<lparr>clientsByPort := f cs\<rparr> | None \<Rightarrow> m)
       = clientSockets m"
  by (simp_all split: option.splits)

text \<open>
  When the ports of the sockets that close are in range, no \<open>close\<close> listener throws: the
  wait only adds Disconnects to the wire.
\<close>

lemma awaitClients_ok:
  assumes "serialOpen s \<longrightarrow>
             (\<forall>h. Closes h \<in> set evs \<and> h < length (clientSockets s)
                \<longrightarrow> 0 \<le> remotePort (ck_mapping (clientSockets s ! h))
                    \<and> remotePort (ck_mapping (clientSockets s ! h)) \<le> 65535)"
  shows "\<not> fst (awaitClients evs s)
         \<and> (\<exists>ds. wire (snd (awaitClients evs s)) = wire s @ ds
                 \<and> list_all (\<lambda>d. readUInt8 d 0 = 3) ds)
         \<and> exitCode (snd (awaitClients evs s)) = exitCode s
         \<and> serialOpen (snd (awaitClients evs s)) = serialOpen s
         \<and> env (snd (awaitClients evs s)) = env s"
  using assms
proof (induction evs arbitrary: s)
  case Nil
  show ?case by (simp add: awaitClients.simps)
next
  case (Cons ev evs)
  have keep: "serialOpen s' \<longrightarrow>
             (\<forall>h. Closes h \<in> set evs \<and> h < length (clientSockets s')
                \<longrightarrow> 0 \<le> remotePort (ck_mapping (clientSockets s' ! h))
                    \<and> remotePort (ck_mapping (clientSockets s' ! h)) \<le> 65535)"
    if "serialOpen s' = serialOpen s"
      "map ck_mapping (clientSockets s') = map ck_mapping (clientSockets s)" for s'
    using Cons.prems that(1) mapping_nth [OF that(2)] by auto
  show ?case
  proof (cases ev)
    case (Expires h)
    have "awaitClients (ev # evs) s = awaitClients evs (markClientDestroyed h s)"
      using Expires by (simp add: awaitClients.simps)
    then show ?thesis using Cons.IH [OF keep [of "markClientDestroyed h s"]] by simp
  next
    case (Closes h)
    show ?thesis
    proof (cases "h < length (clientSockets s) \<and> \<not> ck_closed (clientSockets s ! h)")
      case False
      have "awaitClients (Closes h # evs) s = awaitClients evs s"
        by (subst awaitClients.simps) (simp only: False if_False simp_thms)
      then show ?thesis using Cons.IH [OF keep [of s]] Closes by simp
    next
      case True
      let ?k = "clientSockets s ! h"
      let ?key = "NumberKey (localPort (ck_mapping ?k))"
      let ?m = "markClientClosed h s"
      let ?s1 = "(case map_of (clientsByPort ?m) ?key of
                     Some cs \<Rightarrow>
                       ?m\<lparr>clientsByPort :=
                           map_set (clientsByPort ?m) ?key (map_delete cs (ck_clientId ?k))\<rparr>
                   | None \<Rightarrow> ?m)"
      note ff = forget_fields [where x = "map_of (clientsByPort ?m) ?key" and m = ?m
          and f = "\<lambda>cs. map_set (clientsByPort ?m) ?key (map_delete cs (ck_clientId ?k))"]
      have f1: "wire ?s1 = wire s" "exitCode ?s1 = exitCode s" "serialOpen ?s1 = serialOpen s"
        "env ?s1 = env s"
        "map ck_mapping (clientSockets ?s1) = map ck_mapping (clientSockets s)"
        using ff by simp_all
      show ?thesis
      proof (cases "serialOpen s")
        case False
        then have no: "\<not> serialOpen ?s1" using f1(3) by simp
        have e: "awaitClients (Closes h # evs) s = awaitClients evs ?s1"
          by (subst awaitClients.simps) (simp only: True no if_True if_False Let_def simp_thms)
        from Cons.IH [OF keep [of ?s1]] f1 show ?thesis unfolding Closes e by simp
      next
        case so: True
        then have so1: "serialOpen ?s1" using f1(3) by simp
        have "0 \<le> remotePort (ck_mapping ?k) \<and> remotePort (ck_mapping ?k) \<le> 65535"
          using Cons.prems so True Closes by simp
        then have "\<exists>b. createPacket CMD_DISCONNECT (JsString (ck_clientId ?k)) []
                      (remoteHost (ck_mapping ?k)) (remotePort (ck_mapping ?k))
                      (randomUUID (env ?s1)) = Inr b"
          by (subst createPacket_port) (simp_all add: CMD_DISCONNECT_def)
        then obtain b where b: "createPacket CMD_DISCONNECT (JsString (ck_clientId ?k)) []
                      (remoteHost (ck_mapping ?k)) (remotePort (ck_mapping ?k))
                      (randomUUID (env ?s1)) = Inr b"
          by blast
        have cb: "readUInt8 b 0 = 3"
          using createPacket_cmd [OF b] by (simp add: CMD_DISCONNECT_def)
        have e: "awaitClients (Closes h # evs) s = awaitClients evs (serialWrite b ?s1)"
          by (subst awaitClients.simps)
             (simp only: True so1 b if_True Let_def sum.case simp_thms)
        have "serialOpen (serialWrite b ?s1) = serialOpen s"
          "map ck_mapping (clientSockets (serialWrite b ?s1)) = map ck_mapping (clientSockets s)"
          using f1 by simp_all
        from Cons.IH [OF keep [OF this]] obtain ds where
          ds: "\<not> fst (awaitClients evs (serialWrite b ?s1))"
            "wire (snd (awaitClients evs (serialWrite b ?s1))) = wire (serialWrite b ?s1) @ ds"
            "list_all (\<lambda>d. readUInt8 d 0 = 3) ds"
            "exitCode (snd (awaitClients evs (serialWrite b ?s1))) = exitCode (serialWrite b ?s1)"
            "serialOpen (snd (awaitClients evs (serialWrite b ?s1)))
               = serialOpen (serialWrite b ?s1)"
            "env (snd (awaitClients evs (serialWrite b ?s1))) = env (serialWrite b ?s1)"
          by blast
        have w: "wire (snd (awaitClients evs (serialWrite b ?s1))) = wire s @ (b # ds)"
          using ds(2) f1(1) by simp
        have l: "list_all (\<lambda>d. readUInt8 d 0 = 3) (b # ds)" using cb ds(3) by simp
        show ?thesis
          unfolding Closes e using ds(1) w l ds(4-6) f1
          by (intro conjI exI [of _ "b # ds"]) simp_all
      qed
    qed
  qed
qed

lemma ingress_shutdown_unfold:
  assumes "r = (if serialOpen s then disconnectAll (concat (map snd (clientsByPort s))) s
                else (False, s))"
    and "hs = waitedClients (concat (map snd (clientsByPort s))) (snd r)"
    and "w = awaitClients (waitEvents (env (snd r)) hs) (endClients hs (snd r))"
  shows "ingress_gracefulShutdown s =
           (if fst r then (snd r)\<lparr>exitCode := Some 1\<rparr>
            else if fst w then snd w
            else (closeSerial ((snd w)\<lparr>clientsByPort := [], listening := False\<rparr>))
                   \<lparr>exitCode := Some 0\<rparr>)"
  unfolding assms by (subst ingress_gracefulShutdown.simps) (simp only: Let_def)

text \<open>
  Step 1 of the ingress sequence has built a Disconnect for every client in the table, so
  when it has not thrown, the \<open>close\<close> listeners of these clients do not throw either.
\<close>

lemma ingress_shutdown_steps:
  assumes "r = (if serialOpen s then disconnectAll (concat (map snd (clientsByPort s))) s
                else (False, s))"
    and "hs = waitedClients (concat (map snd (clientsByPort s))) (snd r)"
    and "w = awaitClients (waitEvents (env (snd r)) hs) (endClients hs (snd r))"
  shows "fst r = (serialOpen s
               \<and> \<not> list_all (\<lambda>ch. 0 \<le> remotePort (ck_mapping (clientSockets s ! snd ch))
                                 \<and> remotePort (ck_mapping (clientSockets s ! snd ch)) \<le> 65535)
                       (concat (map snd (clientsByPort s))))"
    and "\<exists>ds. wire (snd r) = wire s @ ds \<and> list_all (\<lambda>d. readUInt8 d 0 = 3) ds"
    and "\<not> fst r \<Longrightarrow> \<not> fst w"
    and "\<not> fst r \<Longrightarrow> \<exists>ds. wire (snd w) = wire (snd r) @ ds
                          \<and> list_all (\<lambda>d. readUInt8 d 0 = 3) ds"
proof -
  let ?everyone = "concat (map snd (clientsByPort s))"
  from disconnectAll_wire [of ?everyone s] obtain ds0 where
    d: "wire (snd (disconnectAll ?everyone s)) = wire s @ ds0"
      "list_all (\<lambda>d. readUInt8 d 0 = 3) ds0"
      "clientSockets (snd (disconnectAll ?everyone s)) = clientSockets s"
      "serialOpen (snd (disconnectAll ?everyone s)) = serialOpen s"
      "fst (disconnectAll ?everyone s)
         = (\<not> list_all (\<lambda>ch. 0 \<le> remotePort (ck_mapping (clientSockets s ! snd ch))
                           \<and> remotePort (ck_mapping (clientSockets s ! snd ch)) \<le> 65535)
                 ?everyone)"
    by blast
  show fr: "fst r = (serialOpen s
               \<and> \<not> list_all (\<lambda>ch. 0 \<le> remotePort (ck_mapping (clientSockets s ! snd ch))
                                 \<and> remotePort (ck_mapping (clientSockets s ! snd ch)) \<le> 65535)
                       ?everyone)"
    unfolding assms(1) using d(5) by simp
  have wr: "wire (snd r) = wire s @ (if serialOpen s then ds0 else [])"
    unfolding assms(1) using d(1) by simp
  have "list_all (\<lambda>d. readUInt8 d 0 = 3) (if serialOpen s then ds0 else [])"
    using d(2) by simp
  then show "\<exists>ds. wire (snd r) = wire s @ ds \<and> list_all (\<lambda>d. readUInt8 d 0 = 3) ds"
    using wr by blast
  have cs: "clientSockets (snd r) = clientSockets s" "serialOpen (snd r) = serialOpen s"
    unfolding assms(1) using d(3,4) by simp_all
  have ok: "serialOpen (endClients hs (snd r)) \<longrightarrow>
             (\<forall>h. Closes h \<in> set (waitEvents (env (snd r)) hs)
                    \<and> h < length (clientSockets (endClients hs (snd r)))
                \<longrightarrow> 0 \<le> remotePort (ck_mapping (clientSockets (endClients hs (snd r)) ! h))
                    \<and> remotePort (ck_mapping (clientSockets (endClients hs (snd r)) ! h))
                        \<le> 65535)"
    if nr: "\<not> fst r"
  proof (intro impI allI)
    fix h
    assume so: "serialOpen (endClients hs (snd r))"
      and h: "Closes h \<in> set (waitEvents (env (snd r)) hs)
              \<and> h < length (clientSockets (endClients hs (snd r)))"
    have m: "map ck_mapping (clientSockets (endClients hs (snd r)))
               = map ck_mapping (clientSockets s)"
      using cs(1) by simp
    have hl: "h < length (clientSockets s)" using h mapping_nth(1) [OF m] by simp
    have eq: "ck_mapping (clientSockets (endClients hs (snd r)) ! h)
                = ck_mapping (clientSockets s ! h)"
      by (rule mapping_nth(2) [OF m hl])
    have "h \<in> set hs" using h set_waitEvents by blast
    then have "h \<in> snd ` set ?everyone"
      unfolding assms(2) waitedClients_def by (auto simp del: set_concat)
    then obtain ch where "ch \<in> set ?everyone" "snd ch = h" by blast
    moreover have "list_all (\<lambda>ch. 0 \<le> remotePort (ck_mapping (clientSockets s ! snd ch))
                                 \<and> remotePort (ck_mapping (clientSockets s ! snd ch)) \<le> 65535)
                       ?everyone"
      using nr fr so cs(2) by simp
    ultimately have "0 \<le> remotePort (ck_mapping (clientSockets s ! h))
                     \<and> remotePort (ck_mapping (clientSockets s ! h)) \<le> 65535"
      unfolding list_all_iff by blast
    then show "0 \<le> remotePort (ck_mapping (clientSockets (endClients hs (snd r)) ! h))
               \<and> remotePort (ck_mapping (clientSockets (endClients hs (snd r)) ! h)) \<le> 65535"
      using eq by simp
  qed
  show "\<not> fst w" if "\<not> fst r"
    unfolding assms(3) using awaitClients_ok [OF ok [OF that]] by blast
  show "\<exists>ds. wire (snd w) = wire (snd r) @ ds \<and> list_all (\<lambda>d. readUInt8 d 0 = 3) ds"
    if "\<not> fst r"
    unfolding assms(3) using awaitClients_ok [OF ok [OF that]] by simp
qed


lemma ingress_shutdown_exit:
  "exitCode (ingress_gracefulShutdown s)
     = Some (if serialOpen s
               \<and> \<not> list_all (\<lambda>ch. 0 \<le> remotePort (ck_mapping (clientSockets s ! snd ch))
                                 \<and> remotePort (ck_mapping (clientSockets s ! snd ch)) \<le> 65535)
                       (concat (map snd (clientsByPort s)))
             then 1 else 0)"
proof -
  define r where "r = (if serialOpen s then disconnectAll (concat (map snd (clientsByPort s))) s
                else (False, s))"
  define hs where "hs = waitedClients (concat (map snd (clientsByPort s))) (snd r)"
  define w where "w = awaitClients (waitEvents (env (snd r)) hs) (endClients hs (snd r))"
  note st = ingress_shutdown_steps [OF r_def hs_def w_def]
  note un = ingress_shutdown_unfold [OF r_def hs_def w_def]
  show ?thesis
  proof (cases "fst r")
    case True
    then show ?thesis unfolding un using st(1) by simp
  next
    case False
    then show ?thesis unfolding un using st(1) st(3) [OF False] by simp
  qed
qed

lemma ingress_shutdown_exits: "exitCode (ingress_gracefulShutdown s) \<noteq> None"
  by (simp add: ingress_shutdown_exit)

subsection \<open>What holds of a running egress process\<close>








section \<open>Claims about the two processes\<close>

lemma example_frames_ok:
  "frame_ok example_data_frame" "frame_ok example_disconnect_frame"
  "frame_ok example_program_close_frame" "frame_ok localhost_frame"
  by (simp_all add: frame_ok_def example_data_frame_def example_disconnect_frame_def
        example_program_close_frame_def localhost_frame_def)

lemma example_packets:
  "packet_of example_data_frame
     = \<lparr>cmd = 1, clientId = ''123e4567e89b42d3a456426614174000'',
         targetHost = ''127.0.0.1'', targetPort = 9000, data = [104, 105]\<rparr>"
  "packet_of example_disconnect_frame
     = \<lparr>cmd = 3, clientId = ''123e4567e89b42d3a456426614174000'',
         targetHost = ''127.0.0.1'', targetPort = 9000, data = []\<rparr>"
  "packet_of example_program_close_frame
     = \<lparr>cmd = 5, clientId = ''aabbccddeeff40118022334455667788'',
         targetHost = ''0.0.0.0'', targetPort = 0, data = []\<rparr>"
  by code_simp+

lemmas example_transforms =
  example_frames_ok [THEN transform_frame]

lemma transform_partial:
  "partial_frame (buf @ chunk) \<Longrightarrow> transform buf chunk = ([], buf @ chunk)"
  by (simp add: transform_def partial_frame_def packetLoop_stop)

text \<open>
  Claim C4 (oversize frame), as amended. The framer has no ceiling on the length field.
  While the buffer does not hold a whole frame, whatever length its header announces, the
  receiving side (ingress or egress) emits no packet, keeps all the bytes and waits: no
  session is touched and the process does not exit. A frame of any payload length that
  the 32-bit field can hold is delivered once it is complete.
\<close>

theorem framer_has_no_ceiling:
  assumes "partial_frame (streamBuffer s @ chunk)" and "exitCode s = None"
    and "partial_frame (streamBuffer t @ chunk)" and "exitCode t = None"
    and "frame_ok f"
  shows "ingress_step s (UartData chunk) = s\<lparr>streamBuffer := streamBuffer s @ chunk\<rparr>
         \<and> egress_step t (SerialData chunk) = t\<lparr>streamBuffer := streamBuffer t @ chunk\<rparr>
         \<and> transform [] (frame_bytes f) = ([packet_of f], [])"
  using assms
  by (simp add: ingress_step.simps egress_step.simps ingress_uartData_def egress_serialData_def
        transform_partial transform_frame)

theorem framer_has_no_ceiling_witness:
  "readUInt32BE oversize_header 23 = 4294967295
   \<and> ingress_step (ingress_init example_env example_mappings) (UartData oversize_header)
       = (ingress_init example_env example_mappings)\<lparr>streamBuffer := oversize_header\<rparr>
   \<and> egress_step (egress_init example_env) (SerialData oversize_header)
       = (egress_init example_env)\<lparr>streamBuffer := oversize_header\<rparr>
   \<and> transform [] (frame_bytes example_data_frame) = ([packet_of example_data_frame], [])"
proof -
  have len: "readUInt32BE oversize_header 23 = 4294967295"
    by (simp add: readUInt32BE_def oversize_header_def)
  have l: "length oversize_header = 27" by (simp add: oversize_header_def)
  have p: "partial_frame (streamBuffer (ingress_init example_env example_mappings)
             @ oversize_header)"
    by (simp add: partial_frame_def ingress_init_def len l)
  have q: "partial_frame (streamBuffer (egress_init example_env) @ oversize_header)"
    by (simp add: partial_frame_def egress_init_def len l)
  have e1: "exitCode (ingress_init example_env example_mappings) = None"
    by (simp add: ingress_init_def)
  have e2: "exitCode (egress_init example_env) = None" by (simp add: egress_init_def)
  have ok: "frame_ok example_data_frame" by (simp add: frame_ok_def example_data_frame_def)
  from framer_has_no_ceiling [OF p e1 q e2 ok] len
  show ?thesis by (simp add: ingress_init_def egress_init_def)
qed

theorem oversize_frame_counterexample:
  "readUInt32BE oversize_header 23 = 4294967295
   \<and> exitCode (ingress_run (ingress_init example_env example_mappings)
        [UartData oversize_header]) = None
   \<and> streamBuffer (ingress_run (ingress_init example_env example_mappings)
        [UartData oversize_header]) = oversize_header
   \<and> exitCode (egress_run (egress_init example_env) [SerialData oversize_header]) = None
   \<and> streamBuffer (egress_run (egress_init example_env) [SerialData oversize_header])
       = oversize_header"
proof -
  have len: "readUInt32BE oversize_header 23 = 4294967295"
    by (simp add: readUInt32BE_def oversize_header_def)
  have l: "length oversize_header = 27" by (simp add: oversize_header_def)
  have t: "transform [] oversize_header = ([], oversize_header)"
    using transform_partial [of "[]" oversize_header] by (simp add: partial_frame_def len l)
  show ?thesis
    by (simp add: len ingress_run_def egress_run_def ingress_step.simps egress_step.simps
          ingress_init_def egress_init_def ingress_uartData_def egress_serialData_def t)
qed

text \<open>
  Claim C5 (ProgramClose reception), as amended. On the ingress side a ProgramClose
  packet queues a call of \<open>gracefulShutdown\<close>, and when the queued call runs it does
  what a signal does. On the egress side \<open>handlePacket\<close> has no case for ProgramClose:
  the packet changes nothing and the process goes on.
\<close>

theorem program_close_reception:
  assumes "int (cmd p) = CMD_PROGRAM_CLOSE" and "exitCode s = None"
  shows "handleResponsePacket p s = s\<lparr>immediates := immediates s + 1\<rparr>
         \<and> ingress_step (handleResponsePacket p s) Immediate = ingress_step s Interrupt
         \<and> handlePacket p t = t"
  using assms
  by (simp add: ingress_step.simps handleResponsePacket_def handlePacket_def
        CMD_PROGRAM_CLOSE_def CMD_DATA_def CMD_DISCONNECT_def)

theorem program_close_reception_witness:
  "int (cmd (packet_of example_program_close_frame)) = CMD_PROGRAM_CLOSE
   \<and> ingress_run (ingress_init example_env example_mappings)
        [UartData (frame_bytes example_program_close_frame), Immediate]
       = ingress_run (ingress_init example_env example_mappings) [Interrupt]
   \<and> exitCode (ingress_run (ingress_init example_env example_mappings) [Interrupt]) = Some 0
   \<and> egress_run (egress_init example_env) [SerialData (frame_bytes example_program_close_frame)]
       = egress_init example_env"
proof -
  let ?p = "packet_of example_program_close_frame"
  let ?s = "ingress_init example_env example_mappings"
  let ?t = "egress_init example_env"
  have c: "int (cmd ?p) = CMD_PROGRAM_CLOSE"
    by (simp add: packet_of_def example_program_close_frame_def CMD_PROGRAM_CLOSE_def)
  have e: "exitCode ?s = None" by (simp add: ingress_init_def)
  have ok: "frame_ok example_program_close_frame"
    by (simp add: frame_ok_def example_program_close_frame_def)
  note tr = transform_frame [OF ok]
  note pcr = program_close_reception [OF c e, of ?t]
  note h = pcr [THEN conjunct2, THEN conjunct1] pcr [THEN conjunct2, THEN conjunct2]
  have u: "ingress_step ?s (UartData (frame_bytes example_program_close_frame))
             = handleResponsePacket ?p ?s"
    by (simp add: ingress_step.simps ingress_uartData_def tr ingress_init_def)
  have v: "egress_step ?t (SerialData (frame_bytes example_program_close_frame))
             = handlePacket ?p ?t"
    by (simp add: egress_step.simps egress_serialData_def tr egress_init_def)
  have x: "exitCode (ingress_step ?s Interrupt) = Some 0"
    by (simp add: ingress_step.simps ingress_shutdown_exit) (simp add: ingress_init_def)
  show ?thesis
    using c x by (simp add: ingress_run_def egress_run_def u v h)
qed

theorem program_close_reception_counterexample:
  "exitCode (egress_run (egress_init example_env)
      [SerialData (frame_bytes example_program_close_frame)]) = None
   \<and> wire (egress_run (egress_init example_env)
      [SerialData (frame_bytes example_program_close_frame)]) = []
   \<and> map sk_dial (targetSockets (egress_run (egress_init example_env)
      [SerialData (frame_bytes example_program_close_frame),
       SerialData (frame_bytes example_data_frame)])) = [Connecting]"
  by (simp add: egress_run_def egress_step.simps egress_init_def egress_serialData_def
        example_transforms example_packets handlePacket_def
        CMD_DATA_def CMD_DISCONNECT_def createTargetConnection_def)
lemma example_uuid_hex: "removeHyphens example_uuid = ''123e4567e89b42d3a456426614174000''"
  by code_simp

lemma example_env_fields:
  "randomUUID example_env = example_uuid" "socketCloses example_env h = False"
  "closesLate example_env h = False" "serialCloses example_env = False"
  "randomUUID closing_env = example_uuid" "socketCloses closing_env h = True"
  "serialCloses closing_env = True" "closeRank closing_env h = h"
  by (simp_all add: example_env_def closing_env_def)

lemma ingress_one_client_state:
  "ingress_one_client =
     \<lparr>serialOpen = True, wire = [], streamBuffer = [], exitCode = None, env = example_env,
      portMappings = example_mappings,
      clientsByPort = [(NumberKey 8080, [(''123e4567e89b42d3a456426614174000'', 0)])],
      clientSockets =
        [\<lparr>ck_clientId = ''123e4567e89b42d3a456426614174000'',
          ck_mapping = \<lparr>localPort = 8080, remoteHost = ''localhost'', remotePort = 22\<rparr>,
          ck_written = [], ck_ended = False, ck_destroyed = False, ck_closed = False\<rparr>],
      listening = True, immediates = 0\<rparr>"
  by (simp add: ingress_one_client_def ingress_run_def ingress_step.simps ingress_init_def
        ingress_connection_def example_mappings_def example_uuid_hex map_has_def Let_def)


lemma egress_one_target_state:
  "egress_one_target =
     \<lparr>serialOpen = True, wire = [], streamBuffer = [], exitCode = None, env = example_env,
      clients =
        [(''123e4567e89b42d3a456426614174000'',
          \<lparr>client_id = ''123e4567e89b42d3a456426614174000'', client_socket = 0,
            connected = True, client_targetHost = ''127.0.0.1'', client_targetPort = 9000\<rparr>)],
      targetSockets =
        [\<lparr>sk_clientId = ''123e4567e89b42d3a456426614174000'', sk_targetHost = ''127.0.0.1'',
          sk_targetPort = 9000, sk_data = [104, 105], sk_dial = Established,
          written = [[104, 105]], ended = False, destroyed = False, closed = False\<rparr>]\<rparr>"
  by (simp add: egress_one_target_def egress_run_def egress_step.simps egress_init_def
        egress_serialData_def example_transforms example_packets handlePacket_def CMD_DATA_def
        createTargetConnection_def egress_connected_def socketWrite_def Let_def)


lemma example_disconnect_packets:
  "createPacket CMD_DISCONNECT (JsString ''123e4567e89b42d3a456426614174000'') []
     ''localhost'' 22 example_uuid
     = Inr [3, 0x12, 0x3e, 0x45, 0x67, 0xe8, 0x9b, 0x42, 0xd3, 0xa4, 0x56, 0x42, 0x66,
            0x14, 0x17, 0x40, 0x00, 0, 0, 0, 0, 0, 22, 0, 0, 0, 0]"
  "createPacket CMD_DISCONNECT (JsString ''123e4567e89b42d3a456426614174000'') []
     ''127.0.0.1'' 9000 example_uuid
     = Inr [3, 0x12, 0x3e, 0x45, 0x67, 0xe8, 0x9b, 0x42, 0xd3, 0xa4, 0x56, 0x42, 0x66,
            0x14, 0x17, 0x40, 0x00, 127, 0, 0, 1, 35, 40, 0, 0, 0, 0]"
  "createPacket CMD_PROGRAM_CLOSE (JsString ''123e4567e89b42d3a456426614174000'') [] [] 0
     example_uuid
     = Inr [5, 0x12, 0x3e, 0x45, 0x67, 0xe8, 0x9b, 0x42, 0xd3, 0xa4, 0x56, 0x42, 0x66,
            0x14, 0x17, 0x40, 0x00, 0, 0, 0, 0, 0, 0, 0, 0, 0, 0]"
  by code_simp+

lemma waitEvents_examples:
  "waitEvents example_env [0] = [Expires 0]"
  "waitEvents closing_env [0] = [Closes 0]"
  by (simp_all add: waitEvents_def example_env_def closing_env_def)

text \<open>
  A shutdown with one client. When the socket does not close in time, the wire holds the
  Disconnect of step 1 and the socket is destroyed; when it closes in time, its \<open>close\<close>
  listener has written a second Disconnect.
\<close>

lemma ingress_shutdown_example:
  "ingress_gracefulShutdown ingress_one_client =
     \<lparr>serialOpen = True,
      wire = [[3, 0x12, 0x3e, 0x45, 0x67, 0xe8, 0x9b, 0x42, 0xd3, 0xa4, 0x56, 0x42, 0x66,
               0x14, 0x17, 0x40, 0x00, 0, 0, 0, 0, 0, 22, 0, 0, 0, 0]],
      streamBuffer = [], exitCode = Some 0, env = example_env,
      portMappings = example_mappings, clientsByPort = [],
      clientSockets =
        [\<lparr>ck_clientId = ''123e4567e89b42d3a456426614174000'',
          ck_mapping = \<lparr>localPort = 8080, remoteHost = ''localhost'', remotePort = 22\<rparr>,
          ck_written = [], ck_ended = True, ck_destroyed = True, ck_closed = False\<rparr>],
      listening = False, immediates = 0\<rparr>"
  by (simp add: ingress_one_client_state ingress_gracefulShutdown.simps Let_def
        example_env_fields example_disconnect_packets serialWrite_def closeSerial_def
        waitedClients_def endClients_def clientEnd_def waitEvents_examples awaitClients.simps
        markClientDestroyed_def)


lemma egress_shutdown_example:
  "egress_gracefulShutdown egress_one_target =
     \<lparr>serialOpen = True,
      wire = [[5, 0x12, 0x3e, 0x45, 0x67, 0xe8, 0x9b, 0x42, 0xd3, 0xa4, 0x56, 0x42, 0x66,
               0x14, 0x17, 0x40, 0x00, 0, 0, 0, 0, 0, 0, 0, 0, 0, 0],
              [3, 0x12, 0x3e, 0x45, 0x67, 0xe8, 0x9b, 0x42, 0xd3, 0xa4, 0x56, 0x42, 0x66,
               0x14, 0x17, 0x40, 0x00, 127, 0, 0, 1, 35, 40, 0, 0, 0, 0]],
      streamBuffer = [], exitCode = Some 0, env = example_env, clients = [],
      targetSockets =
        [\<lparr>sk_clientId = ''123e4567e89b42d3a456426614174000'', sk_targetHost = ''127.0.0.1'',
          sk_targetPort = 9000, sk_data = [104, 105], sk_dial = Established,
          written = [[104, 105]], ended = True, destroyed = True, closed = False\<rparr>]\<rparr>"
  by (simp add: egress_one_target_state egress_gracefulShutdown.simps Let_def
        example_env_fields example_uuid_hex example_disconnect_packets serialWrite_def
        closeSerial_def waitedTargets_def endTargets_def socketEnd_def waitEvents_examples
        awaitTargets.simps markDestroyed_def)




text \<open>
  Claim C8 (shutdown exit status), as amended. A shutdown sequence that runs to its end
  exits with status 0 whether or not a bounded wait expired: the outcome of the waits
  does not enter the status. It exits with status 1 exactly when an exception is thrown
  in the sequence, which happens when the serial port is open and \<open>createPacket\<close>
  rejects the target port of a session while the Disconnects are built.
\<close>

theorem shutdown_exit_status:
  "exitCode (ingress_gracefulShutdown s)
     = Some (if serialOpen s
               \<and> \<not> list_all (\<lambda>ch. 0 \<le> remotePort (ck_mapping (clientSockets s ! snd ch))
                                 \<and> remotePort (ck_mapping (clientSockets s ! snd ch)) \<le> 65535)
                       (concat (map snd (clientsByPort s)))
             then 1 else 0)
   \<and> exitCode (egress_gracefulShutdown t)
     = Some (if serialOpen t
               \<and> \<not> list_all (\<lambda>uc. client_targetPort (snd uc) \<le> 65535) (clients t)
             then 1 else 0)"
  using ingress_shutdown_exit [of s] egress_shutdown_exit [of t] by simp

theorem shutdown_exit_status_witness:
  "exitCode (ingress_gracefulShutdown ingress_one_client) = Some 0
   \<and> exitCode (egress_gracefulShutdown egress_one_target) = Some 0
   \<and> exitCode (ingress_gracefulShutdown
        (ingress_run (ingress_init example_env bad_port_mappings) [Connection 0 example_uuid]))
       = Some 1"
proof -
  let ?bad = "ingress_run (ingress_init example_env bad_port_mappings)
                [Connection 0 example_uuid]"
  have b: "serialOpen ?bad"
    "concat (map snd (clientsByPort ?bad)) = [(''123e4567e89b42d3a456426614174000'', 0)]"
    "remotePort (ck_mapping (clientSockets ?bad ! 0)) = 70000"
    by (simp_all add: ingress_run_def ingress_step.simps ingress_init_def
          ingress_connection_def bad_port_mappings_def example_uuid_hex map_has_def Let_def)
  have g: "serialOpen ingress_one_client"
    "concat (map snd (clientsByPort ingress_one_client))
       = [(''123e4567e89b42d3a456426614174000'', 0)]"
    "remotePort (ck_mapping (clientSockets ingress_one_client ! 0)) = 22"
    by (simp_all add: ingress_one_client_state)
  have e: "serialOpen egress_one_target"
    "list_all (\<lambda>uc. client_targetPort (snd uc) \<le> 65535) (clients egress_one_target)"
    by (simp_all add: egress_one_target_state)
  from shutdown_exit_status [of ingress_one_client egress_one_target]
    shutdown_exit_status [of ?bad egress_one_target]
  show ?thesis by (simp add: b g e)
qed

theorem shutdown_exit_status_counterexample:
  "socketCloses example_env 0 = False \<and> serialCloses example_env = False
   \<and> ingress_run (ingress_init example_env example_mappings)
        [Connection 0 example_uuid, Interrupt]
       = ingress_gracefulShutdown ingress_one_client
   \<and> map ck_closed (clientSockets (ingress_gracefulShutdown ingress_one_client)) = [False]
   \<and> serialOpen (ingress_gracefulShutdown ingress_one_client) = True
   \<and> exitCode (ingress_gracefulShutdown ingress_one_client) = Some 0
   \<and> egress_run (egress_init example_env)
        [SerialData (frame_bytes example_data_frame), Connected 0, Signal]
       = egress_gracefulShutdown egress_one_target
   \<and> map closed (targetSockets (egress_gracefulShutdown egress_one_target)) = [False]
   \<and> serialOpen (egress_gracefulShutdown egress_one_target) = True
   \<and> exitCode (egress_gracefulShutdown egress_one_target) = Some 0"
proof -
  have "ingress_run (ingress_init example_env example_mappings)
          [Connection 0 example_uuid, Interrupt]
        = ingress_step ingress_one_client Interrupt"
    by (simp add: ingress_one_client_def ingress_run_def)
  also have "\<dots> = ingress_gracefulShutdown ingress_one_client"
    by (simp add: ingress_step.simps ingress_one_client_state)
  finally have i: "ingress_run (ingress_init example_env example_mappings)
          [Connection 0 example_uuid, Interrupt] = ingress_gracefulShutdown ingress_one_client" .
  have "egress_run (egress_init example_env)
          [SerialData (frame_bytes example_data_frame), Connected 0, Signal]
        = egress_step egress_one_target Signal"
    by (simp add: egress_one_target_def egress_run_def)
  also have "\<dots> = egress_gracefulShutdown egress_one_target"
    by (simp add: egress_step.simps egress_one_target_state)
  finally have e: "egress_run (egress_init example_env)
          [SerialData (frame_bytes example_data_frame), Connected 0, Signal]
        = egress_gracefulShutdown egress_one_target" .
  have w: "socketCloses example_env 0 = False" "serialCloses example_env = False"
    by (simp_all add: example_env_def)
  show ?thesis
    unfolding i e using w by (simp add: ingress_shutdown_example egress_shutdown_example)
qed

section \<open>Claims about the egress session manager\<close>

lemma handlePacket_unknown:
  assumes "int (cmd p) = CMD_DATA" and "map_of (clients t) (clientId p) = None"
  shows "handlePacket p t =
           t\<lparr>targetSockets := targetSockets t @
               [\<lparr>sk_clientId = clientId p, sk_targetHost = targetHost p,
                 sk_targetPort = targetPort p, sk_data = data p, sk_dial = Connecting,
                 written = [], ended = False, destroyed = False, closed = False\<rparr>]\<rparr>"
  using assms by (simp add: handlePacket_def createTargetConnection_def)

lemma handlePacket_known:
  assumes "int (cmd p) = CMD_DATA" and "map_of (clients t) (clientId p) = Some c"
    and "connected c"
  shows "handlePacket p t =
           t\<lparr>targetSockets := (targetSockets t)
               [client_socket c := (targetSockets t ! client_socket c)
                  \<lparr>written := written (targetSockets t ! client_socket c) @ [data p]\<rparr>]\<rparr>"
  using assms by (simp add: handlePacket_def socketWrite_def)

lemma dials_in_flight:
  assumes "list_all (\<lambda>p. int (cmd p) = CMD_DATA \<and> clientId p = cid) ps"
    and "map_of (clients t) cid = None"
  shows "foldl (\<lambda>t p. handlePacket p t) t ps =
           t\<lparr>targetSockets := targetSockets t @
               map (\<lambda>p. \<lparr>sk_clientId = cid, sk_targetHost = targetHost p,
                          sk_targetPort = targetPort p, sk_data = data p, sk_dial = Connecting,
                          written = [], ended = False, destroyed = False, closed = False\<rparr>) ps\<rparr>"
  using assms
proof (induction ps arbitrary: t)
  case Nil
  show ?case by simp
next
  case (Cons p ps)
  have p: "int (cmd p) = CMD_DATA" "clientId p = cid" using Cons.prems(1) by simp_all
  have h: "handlePacket p t =
           t\<lparr>targetSockets := targetSockets t @
               [\<lparr>sk_clientId = cid, sk_targetHost = targetHost p,
                 sk_targetPort = targetPort p, sk_data = data p, sk_dial = Connecting,
                 written = [], ended = False, destroyed = False, closed = False\<rparr>]\<rparr>"
    using handlePacket_unknown [of p t] p Cons.prems(2) by simp
  have "map_of (clients (handlePacket p t)) cid = None" using h Cons.prems(2) by simp
  from Cons.IH [OF _ this] Cons.prems(1)
  show ?case by (simp add: h)
qed

lemma writes_in_order:
  assumes "list_all (\<lambda>p. int (cmd p) = CMD_DATA \<and> clientId p = cid) ps"
    and "map_of (clients t) cid = Some c" and "connected c"
    and "client_socket c < length (targetSockets t)"
  shows "foldl (\<lambda>t p. handlePacket p t) t ps =
           t\<lparr>targetSockets := (targetSockets t)
               [client_socket c := (targetSockets t ! client_socket c)
                  \<lparr>written := written (targetSockets t ! client_socket c) @ map data ps\<rparr>]\<rparr>"
  using assms
proof (induction ps arbitrary: t)
  case Nil
  show ?case by simp
next
  case (Cons p ps)
  let ?h = "client_socket c"
  let ?t' = "t\<lparr>targetSockets := (targetSockets t)
               [?h := (targetSockets t ! ?h)\<lparr>written := written (targetSockets t ! ?h) @ [data p]\<rparr>]\<rparr>"
  have p: "int (cmd p) = CMD_DATA" "clientId p = cid" using Cons.prems(1) by simp_all
  have h: "handlePacket p t = ?t'"
    using handlePacket_known [of p t c] p Cons.prems(2,3) by simp
  have a: "map_of (clients ?t') cid = Some c" using Cons.prems(2) by simp
  have b: "?h < length (targetSockets ?t')" using Cons.prems(4) by simp
  have ps: "list_all (\<lambda>p. int (cmd p) = CMD_DATA \<and> clientId p = cid) ps"
    using Cons.prems(1) by simp
  from Cons.IH [OF ps a Cons.prems(3) b] Cons.prems(4)
  show ?case by (simp add: h)
qed

lemma example_second:
  "frame_ok example_second_frame"
  "packet_of example_second_frame
     = \<lparr>cmd = 1, clientId = ''123e4567e89b42d3a456426614174000'',
         targetHost = ''127.0.0.1'', targetPort = 9000, data = [106]\<rparr>"
  "transform [] (frame_bytes example_second_frame) = ([packet_of example_second_frame], [])"
proof -
  show ok: "frame_ok example_second_frame"
    by (simp add: frame_ok_def example_second_frame_def example_data_frame_def)
  show "packet_of example_second_frame
     = \<lparr>cmd = 1, clientId = ''123e4567e89b42d3a456426614174000'',
         targetHost = ''127.0.0.1'', targetPort = 9000, data = [106]\<rparr>"
    by code_simp
  show "transform [] (frame_bytes example_second_frame) = ([packet_of example_second_frame], [])"
    by (rule transform_frame [OF ok])
qed

lemma egress_connected_effect:
  assumes "h < length (targetSockets t)"
  shows "clients (egress_connected h t)
           = map_set (clients t) (sk_clientId (targetSockets t ! h))
               \<lparr>client_id = sk_clientId (targetSockets t ! h), client_socket = h,
                 connected = True, client_targetHost = sk_targetHost (targetSockets t ! h),
                 client_targetPort = sk_targetPort (targetSockets t ! h)\<rparr>"
    and "written (targetSockets (egress_connected h t) ! h)
           = written (targetSockets t ! h) @ [sk_data (targetSockets t ! h)]"
    and "wire (egress_connected h t) = wire t"
  using assms by (simp_all add: egress_connected_def socketWrite_def Let_def)

text \<open>
  Claim C2 (egress in-flight dial), as amended. A Data packet for an id that has no
  entry in \<open>clients\<close> starts a dial to the target named in the packet, with the
  payload of that packet; so does every further Data packet of the same id that arrives
  before a dial has succeeded: \<open>k\<close> such packets start \<open>k\<close> dials, and nothing is queued.
  When a dial succeeds, its socket is entered in \<open>clients\<close> under the id, in place of
  any earlier entry, and the payload of the packet that started it is written to it. Data
  packets for an id whose entry is connected are written to the socket of that entry, in
  the order received.
\<close>

theorem egress_data_routing:
  assumes "list_all (\<lambda>p. int (cmd p) = CMD_DATA \<and> clientId p = cid) ps"
  shows "(map_of (clients t) cid = None \<longrightarrow>
            foldl (\<lambda>t p. handlePacket p t) t ps =
              t\<lparr>targetSockets := targetSockets t @
                 map (\<lambda>p. \<lparr>sk_clientId = cid, sk_targetHost = targetHost p,
                            sk_targetPort = targetPort p, sk_data = data p,
                            sk_dial = Connecting, written = [], ended = False,
                            destroyed = False, closed = False\<rparr>) ps\<rparr>)
         \<and> (\<forall>c. map_of (clients t) cid = Some c \<and> connected c
                  \<and> client_socket c < length (targetSockets t) \<longrightarrow>
              foldl (\<lambda>t p. handlePacket p t) t ps =
                t\<lparr>targetSockets := (targetSockets t)
                   [client_socket c := (targetSockets t ! client_socket c)
                      \<lparr>written := written (targetSockets t ! client_socket c)
                                   @ map data ps\<rparr>]\<rparr>)
         \<and> (\<forall>h. h < length (targetSockets t) \<longrightarrow>
              clients (egress_connected h t)
                = map_set (clients t) (sk_clientId (targetSockets t ! h))
                    \<lparr>client_id = sk_clientId (targetSockets t ! h), client_socket = h,
                      connected = True,
                      client_targetHost = sk_targetHost (targetSockets t ! h),
                      client_targetPort = sk_targetPort (targetSockets t ! h)\<rparr>
              \<and> written (targetSockets (egress_connected h t) ! h)
                  = written (targetSockets t ! h) @ [sk_data (targetSockets t ! h)])"
  using dials_in_flight [OF assms, of t] writes_in_order [OF assms, of t]
    egress_connected_effect(1,2) [of _ t]
  by blast

theorem egress_data_routing_witness:
  "map sk_data (targetSockets
      (foldl (\<lambda>t p. handlePacket p t) (egress_init example_env)
         [packet_of example_data_frame, packet_of example_second_frame]))
     = [[104, 105], [106]]
   \<and> map written (targetSockets
      (foldl (\<lambda>t p. handlePacket p t) egress_one_target [packet_of example_second_frame]))
     = [[[104, 105], [106]]]"
proof -
  let ?cid = "''123e4567e89b42d3a456426614174000''"
  let ?ps = "[packet_of example_data_frame, packet_of example_second_frame]"
  have ps: "list_all (\<lambda>p. int (cmd p) = CMD_DATA \<and> clientId p = ?cid) ?ps"
    by (simp add: example_packets example_second CMD_DATA_def)
  have ps2: "list_all (\<lambda>p. int (cmd p) = CMD_DATA \<and> clientId p = ?cid)
               [packet_of example_second_frame]"
    by (simp add: example_second CMD_DATA_def)
  have n: "map_of (clients (egress_init example_env)) ?cid = None"
    by (simp add: egress_init_def)
  have k: "map_of (clients egress_one_target) ?cid
             = Some \<lparr>client_id = ?cid, client_socket = 0, connected = True,
                      client_targetHost = ''127.0.0.1'', client_targetPort = 9000\<rparr>"
    by (simp add: egress_one_target_state)
  have a: "foldl (\<lambda>t p. handlePacket p t) (egress_init example_env) ?ps =
             (egress_init example_env)\<lparr>targetSockets := targetSockets (egress_init example_env) @
                 map (\<lambda>p. \<lparr>sk_clientId = ?cid, sk_targetHost = targetHost p,
                            sk_targetPort = targetPort p, sk_data = data p,
                            sk_dial = Connecting, written = [], ended = False,
                            destroyed = False, closed = False\<rparr>) ?ps\<rparr>"
    using egress_data_routing [OF ps, of "egress_init example_env"] n by blast
  have b: "foldl (\<lambda>t p. handlePacket p t) egress_one_target [packet_of example_second_frame] =
             egress_one_target\<lparr>targetSockets := (targetSockets egress_one_target)
                   [0 := (targetSockets egress_one_target ! 0)
                      \<lparr>written := written (targetSockets egress_one_target ! 0)
                                   @ map data [packet_of example_second_frame]\<rparr>]\<rparr>"
    using egress_data_routing [OF ps2, of egress_one_target] k
    by (simp add: egress_one_target_state)
  have a': "map sk_data (targetSockets
      (foldl (\<lambda>t p. handlePacket p t) (egress_init example_env) ?ps)) = [[104, 105], [106]]"
    unfolding a by (simp add: egress_init_def example_packets example_second)
  have b': "map written (targetSockets
      (foldl (\<lambda>t p. handlePacket p t) egress_one_target [packet_of example_second_frame]))
     = [[[104, 105], [106]]]"
    unfolding b by (simp add: egress_one_target_state example_second)
  show ?thesis using a' b' by simp
qed

theorem egress_in_flight_dial_counterexample:
  "map sk_clientId (targetSockets (egress_run (egress_init example_env)
      [SerialData (frame_bytes example_data_frame),
       SerialData (frame_bytes example_second_frame), Connected 0, Connected 1]))
     = [''123e4567e89b42d3a456426614174000'', ''123e4567e89b42d3a456426614174000'']
   \<and> map sk_dial (targetSockets (egress_run (egress_init example_env)
      [SerialData (frame_bytes example_data_frame),
       SerialData (frame_bytes example_second_frame), Connected 0, Connected 1]))
     = [Established, Established]
   \<and> map written (targetSockets (egress_run (egress_init example_env)
      [SerialData (frame_bytes example_data_frame),
       SerialData (frame_bytes example_second_frame), Connected 0, Connected 1]))
     = [[[104, 105]], [[106]]]
   \<and> map ended (targetSockets (egress_run (egress_init example_env)
      [SerialData (frame_bytes example_data_frame),
       SerialData (frame_bytes example_second_frame), Connected 0, Connected 1]))
     = [False, False]
   \<and> map closed (targetSockets (egress_run (egress_init example_env)
      [SerialData (frame_bytes example_data_frame),
       SerialData (frame_bytes example_second_frame), Connected 0, Connected 1]))
     = [False, False]"
  by (simp add: egress_run_def egress_step.simps egress_init_def egress_serialData_def
        example_transforms example_second example_packets handlePacket_def CMD_DATA_def
        createTargetConnection_def egress_connected_def socketWrite_def Let_def)

text \<open>
  Claim C7 (dial failure), as amended. When the dial for a session fails, the egress
  only logs: the payload that waited for the dial is written to no socket, now or when
  the failed socket closes, \<open>clients\<close> is left as it is, and no packet is written to the
  serial port; no Disconnect is emitted.
\<close>

theorem dial_failure_drops_payload:
  assumes "exitCode t = None" and "h < length (targetSockets t)"
    and "sk_dial (targetSockets t ! h) = Connecting" and "\<not> closed (targetSockets t ! h)"
  shows "wire (egress_step t (TargetError h)) = wire t
         \<and> clients (egress_step t (TargetError h)) = clients t
         \<and> map written (targetSockets (egress_step t (TargetError h)))
             = map written (targetSockets t)
         \<and> sk_dial (targetSockets (egress_step t (TargetError h)) ! h) = Failed
         \<and> egress_step (egress_step t (TargetError h)) (Connected h)
             = egress_step t (TargetError h)
         \<and> wire (egress_step (egress_step t (TargetError h)) (TargetClose h)) = wire t
         \<and> clients (egress_step (egress_step t (TargetError h)) (TargetClose h)) = clients t
         \<and> map written (targetSockets
               (egress_step (egress_step t (TargetError h)) (TargetClose h)))
             = map written (targetSockets t)"
proof -
  let ?k = "targetSockets t ! h"
  have e: "egress_step t (TargetError h) = setDial h Failed (markDestroyed h t)"
    using assms by (simp add: egress_step.simps)
  have s: "setDial h Failed (markDestroyed h t)
             = t\<lparr>targetSockets := (targetSockets t)
                  [h := ?k\<lparr>destroyed := True, sk_dial := Failed\<rparr>]\<rparr>"
    using assms(2) by (simp add: setDial_def markDestroyed_def)
  show ?thesis
    unfolding e s using assms
    by (simp add: egress_step.simps markClosed_def map_update_same)
qed

theorem dial_failure_drops_payload_witness:
  "wire (egress_run (egress_init example_env)
      [SerialData (frame_bytes example_data_frame), TargetError 0]) = []
   \<and> clients (egress_run (egress_init example_env)
      [SerialData (frame_bytes example_data_frame), TargetError 0]) = []
   \<and> map written (targetSockets (egress_run (egress_init example_env)
      [SerialData (frame_bytes example_data_frame), TargetError 0])) = [[]]"
proof -
  let ?t = "egress_step (egress_init example_env) (SerialData (frame_bytes example_data_frame))"
  have t: "?t = (egress_init example_env)\<lparr>targetSockets :=
              [\<lparr>sk_clientId = ''123e4567e89b42d3a456426614174000'',
                sk_targetHost = ''127.0.0.1'', sk_targetPort = 9000, sk_data = [104, 105],
                sk_dial = Connecting, written = [], ended = False, destroyed = False,
                closed = False\<rparr>]\<rparr>"
    by (simp add: egress_step.simps egress_init_def egress_serialData_def example_transforms
          example_packets handlePacket_def CMD_DATA_def createTargetConnection_def)
  have a: "exitCode ?t = None" "0 < length (targetSockets ?t)"
    "sk_dial (targetSockets ?t ! 0) = Connecting" "\<not> closed (targetSockets ?t ! 0)"
    unfolding t by (simp_all add: egress_init_def)
  have r: "egress_run (egress_init example_env)
             [SerialData (frame_bytes example_data_frame), TargetError 0]
           = egress_step ?t (TargetError 0)"
    by (simp add: egress_run_def)
  from dial_failure_drops_payload [OF a]
  have "wire (egress_step ?t (TargetError 0)) = wire ?t"
    "clients (egress_step ?t (TargetError 0)) = clients ?t"
    "map written (targetSockets (egress_step ?t (TargetError 0)))
       = map written (targetSockets ?t)"
    by blast+
  moreover have "wire ?t = []" "clients ?t = []" "map written (targetSockets ?t) = [[]]"
    unfolding t by (simp_all add: egress_init_def)
  ultimately show ?thesis unfolding r by simp
qed

theorem dial_failure_counterexample:
  "wire (egress_run (egress_init example_env)
      [SerialData (frame_bytes example_data_frame), TargetError 0, TargetClose 0]) = []
   \<and> map sk_dial (targetSockets (egress_run (egress_init example_env)
      [SerialData (frame_bytes example_data_frame), TargetError 0, TargetClose 0])) = [Failed]
   \<and> map closed (targetSockets (egress_run (egress_init example_env)
      [SerialData (frame_bytes example_data_frame), TargetError 0, TargetClose 0])) = [True]"
  by (simp add: egress_run_def egress_step.simps egress_init_def egress_serialData_def
        example_transforms example_packets handlePacket_def CMD_DATA_def
        createTargetConnection_def setDial_def markDestroyed_def markClosed_def)

section \<open>Claims about the ingress session manager\<close>

lemma validId_hex:
  assumes "validId cid"
  shows "toHex (fromHex cid) = cid" and "length (fromHex cid) = 16"
proof -
  show th: "toHex (fromHex cid) = cid"
    using assms by (intro toHex_fromHex) (simp_all add: validId_def)
  have "length (toHex (fromHex cid)) = 2 * length (fromHex cid)" by (rule length_toHex)
  then show "length (fromHex cid) = 16" using th assms by (simp add: validId_def)
qed

lemma validId_uuid:
  assumes "isUUID u"
  shows "validId (removeHyphens u)"
proof -
  have r: "removeHyphens u = concat (split CHR ''-'' u)"
    by (simp add: removeHyphens_def filter_split)
  have "list_all isLowerHex (concat (split CHR ''-'' u))"
    using assms by (auto simp add: isUUID_def list_all_iff)
  then show ?thesis using uuid_hex [OF assms] by (simp add: validId_def r)
qed

lemma disconnect_packet_id:
  assumes "createPacket CMD_DISCONNECT (JsString cid) dat host port uuid = Inr b"
    and "validId cid"
  shows "isDisconnectFor cid' b = (cid' = cid)"
proof -
  have idb: "clientIdBuffer (JsString cid) uuid = fromHex cid"
    using assms(2) by (simp add: clientIdBuffer_def validId_def)
  have "subarray b 1 17 = clientIdBuffer (JsString cid) uuid
          @ replicate (16 - length (clientIdBuffer (JsString cid) uuid)) 0"
    using assms(1) by (rule createPacket_fields(1)) (simp add: idb validId_hex [OF assms(2)])
  then have "toHex (subarray b 1 17) = cid"
    by (simp add: idb validId_hex [OF assms(2)])
  moreover have "readUInt8 b 0 = 3"
    using createPacket_cmd [OF assms(1)] by (simp add: CMD_DISCONNECT_def)
  ultimately show ?thesis by (auto simp add: isDisconnectFor_def)
qed

lemma data_packet_no_disconnect:
  assumes "createPacket CMD_DATA cid dat host port uuid = Inr b"
  shows "\<not> isDisconnectFor cid' b"
  using createPacket_cmd [OF assms] by (simp add: CMD_DATA_def isDisconnectFor_def)


lemma filter_update_count:
  "h < length xs \<Longrightarrow>
   length (filter P (xs[h := y])) + (if P (xs ! h) then 1 else 0)
     = length (filter P xs) + (if P y then 1 else 0)"
proof (induction xs arbitrary: h)
  case Nil
  then show ?case by simp
next
  case (Cons x xs)
  show ?case
  proof (cases h)
    case 0
    then show ?thesis by simp
  next
    case (Suc k)
    then have "k < length xs" using Cons.prems by simp
    from Cons.IH [OF this] show ?thesis using Suc by simp
  qed
qed

lemma distinct_filter_le_1:
  "distinct (map fst xs) \<Longrightarrow> length (filter (\<lambda>x. x = (c, v)) xs) \<le> 1"
proof (induction xs)
  case Nil
  show ?case by simp
next
  case (Cons x xs)
  show ?case
  proof (cases "x = (c, v)")
    case True
    then have "c \<notin> fst ` set xs" using Cons.prems by auto
    then have "filter (\<lambda>x. x = (c, v)) xs = []"
      by (force simp add: filter_empty_conv)
    then show ?thesis using True by simp
  next
    case False
    then show ?thesis using Cons by simp
  qed
qed

lemma session_log_update:
  "ck_clientId y = ck_clientId (clientSockets s ! h) \<Longrightarrow>
   ck_closed y = ck_closed (clientSockets s ! h) \<Longrightarrow>
   session_log (s\<lparr>clientSockets := (clientSockets s)[h := y]\<rparr>) = session_log s"
  by (simp add: session_log_def map_update_same)

lemma session_log_other [simp]:
  "session_log (s\<lparr>clientsByPort := m\<rparr>) = session_log s"
  "session_log (s\<lparr>immediates := n\<rparr>) = session_log s"
  "session_log (s\<lparr>streamBuffer := b\<rparr>) = session_log s"
  "session_log (serialWrite b s) = session_log s"
  by (simp_all add: session_log_def serialWrite_def)

lemma clientEnd_fields [simp]:
  "wire (clientEnd h s) = wire s" "exitCode (clientEnd h s) = exitCode s"
  "session_log (clientEnd h s) = session_log s"
  "clientsByPort (clientEnd h s) = clientsByPort s"
  by (simp_all add: clientEnd_def session_log_update)

lemma clientWrite_fields [simp]:
  "wire (clientWrite h d s) = wire s" "exitCode (clientWrite h d s) = exitCode s"
  "session_log (clientWrite h d s) = session_log s"
  by (simp_all add: clientWrite_def session_log_update)

lemma endClient_fields [simp]:
  "wire (endClient cid m s) = wire s" "exitCode (endClient cid m s) = exitCode s"
  "session_log (endClient cid m s) = session_log s"
  "clientsByPort (endClient cid m s) = clientsByPort s"
  by (induction cid m s rule: endClient.induct; simp split: option.splits)+

lemma handleResponsePacket_fields [simp]:
  "wire (handleResponsePacket p s) = wire s"
  "exitCode (handleResponsePacket p s) = exitCode s"
  "session_log (handleResponsePacket p s) = session_log s"
  by (simp_all add: handleResponsePacket_def Let_def split: option.splits)

lemma ingress_uartData_fields [simp]:
  "wire (ingress_uartData chunk s) = wire s"
  "exitCode (ingress_uartData chunk s) = exitCode s"
  "session_log (ingress_uartData chunk s) = session_log s"
proof -
  have "wire (foldl (\<lambda>t p. handleResponsePacket p t) t ps) = wire t
        \<and> exitCode (foldl (\<lambda>t p. handleResponsePacket p t) t ps) = exitCode t
        \<and> session_log (foldl (\<lambda>t p. handleResponsePacket p t) t ps) = session_log t" for t ps
    by (induction ps arbitrary: t) simp_all
  then show "wire (ingress_uartData chunk s) = wire s"
    "exitCode (ingress_uartData chunk s) = exitCode s"
    "session_log (ingress_uartData chunk s) = session_log s"
    by (simp_all add: ingress_uartData_def Let_def)
qed

lemma ingress_connection_fields [simp]:
  "wire (ingress_connection i uuid s) = wire s"
  "session_log (ingress_connection i uuid s) = session_log s @ [(removeHyphens uuid, False)]"
  by (simp_all add: ingress_connection_def Let_def session_log_def)

lemma ingress_clientData_effect:
  assumes "exitCode (ingress_clientData h d s) = None"
  shows "session_log (ingress_clientData h d s) = session_log s
         \<and> (wire (ingress_clientData h d s) = wire s
            \<or> (\<exists>b. wire (ingress_clientData h d s) = wire s @ [b]
                    \<and> (\<forall>cid. \<not> isDisconnectFor cid b)))"
proof (cases "serialOpen s")
  case False
  then show ?thesis by (simp add: ingress_clientData_def Let_def)
next
  case True
  let ?k = "clientSockets s ! h"
  show ?thesis
  proof (cases "createPacket CMD_DATA (JsString (ck_clientId ?k)) d (remoteHost (ck_mapping ?k))
                  (remotePort (ck_mapping ?k)) (randomUUID (env s))")
    case (Inl e)
    then have "ingress_clientData h d s = ingress_gracefulShutdown s"
      using True by (simp add: ingress_clientData_def Let_def)
    then show ?thesis using assms ingress_shutdown_exits [of s] by simp
  next
    case (Inr b)
    then have "ingress_clientData h d s = serialWrite b s"
      using True by (simp add: ingress_clientData_def Let_def)
    then show ?thesis
      using data_packet_no_disconnect [OF Inr] by simp
  qed
qed

lemma ingress_clientClose_effect:
  assumes "exitCode (ingress_clientClose h (markClientClosed h s)) = None"
    and "h < length (clientSockets s)"
  shows "session_log (ingress_clientClose h (markClientClosed h s))
           = (session_log s)[h := (ck_clientId (clientSockets s ! h), True)]
         \<and> (wire (ingress_clientClose h (markClientClosed h s)) = wire s
            \<or> (\<exists>b. wire (ingress_clientClose h (markClientClosed h s)) = wire s @ [b]
                    \<and> createPacket CMD_DISCONNECT (JsString (ck_clientId (clientSockets s ! h)))
                          [] (remoteHost (ck_mapping (clientSockets s ! h)))
                          (remotePort (ck_mapping (clientSockets s ! h)))
                          (randomUUID (env s)) = Inr b))"
proof -
  let ?m = "markClientClosed h s"
  let ?k = "clientSockets s ! h"
  have mk: "clientSockets ?m ! h = ?k\<lparr>ck_destroyed := True, ck_closed := True\<rparr>"
    using assms(2) by (simp add: markClientClosed_def)
  have ml: "session_log ?m = (session_log s)[h := (ck_clientId ?k, True)]"
    by (simp add: markClientClosed_def session_log_def map_update)
  have mw: "wire ?m = wire s" "serialOpen ?m = serialOpen s" "env ?m = env s"
    by (simp_all add: markClientClosed_def)
  let ?k' = "clientSockets ?m ! h"
  have kk: "ck_clientId ?k' = ck_clientId ?k" "ck_mapping ?k' = ck_mapping ?k"
    by (simp_all add: mk)
  define s1 where "s1 = (case map_of (clientsByPort ?m) (NumberKey (localPort (ck_mapping ?k'))) of
                  Some cs \<Rightarrow>
                    ?m\<lparr>clientsByPort :=
                        map_set (clientsByPort ?m) (NumberKey (localPort (ck_mapping ?k')))
                          (map_delete cs (ck_clientId ?k'))\<rparr>
                | None \<Rightarrow> ?m)"
  have s1: "session_log s1 = session_log ?m" "wire s1 = wire s" "serialOpen s1 = serialOpen s"
    "env s1 = env s"
    unfolding s1_def by (simp_all add: mw split: option.splits)
  have cc: "ingress_clientClose h ?m =
              (if serialOpen s1 then
                 (case createPacket CMD_DISCONNECT (JsString (ck_clientId ?k')) []
                         (remoteHost (ck_mapping ?k')) (remotePort (ck_mapping ?k'))
                         (randomUUID (env s1)) of
                    Inl e \<Rightarrow> ingress_gracefulShutdown s1
                  | Inr packet \<Rightarrow> serialWrite packet s1)
               else s1)"
    unfolding ingress_clientClose_def Let_def s1_def ..
  note cc = cc [unfolded kk]
  show ?thesis
  proof (cases "serialOpen s")
    case False
    then show ?thesis by (simp add: cc s1 ml)
  next
    case True
    show ?thesis
    proof (cases "createPacket CMD_DISCONNECT (JsString (ck_clientId ?k)) []
                    (remoteHost (ck_mapping ?k)) (remotePort (ck_mapping ?k))
                    (randomUUID (env s))")
      case (Inl e)
      then have "ingress_clientClose h ?m = ingress_gracefulShutdown s1"
        using True by (simp add: cc s1)
      then show ?thesis using assms(1) ingress_shutdown_exits [of s1] by simp
    next
      case (Inr b)
      then have "ingress_clientClose h ?m = serialWrite b s1"
        using True by (simp add: cc s1)
      then show ?thesis using Inr by (simp add: s1 ml)
    qed
  qed
qed

lemma ingress_step_exited: "exitCode s \<noteq> None \<Longrightarrow> ingress_step s ev = s"
  by (simp add: ingress_step.simps)

lemma connection_uuids_append:
  "connection_uuids (evs @ evs') = connection_uuids evs @ connection_uuids evs'"
  by (induction evs rule: connection_uuids.induct) simp_all

lemma ingress_inv_wire:
  assumes "ingress_inv ids s"
    and "map fst (session_log s') = map fst (session_log s)"
    and "\<forall>cid. length (filter (isDisconnectFor cid) (wire s'))
                \<le> length (filter (\<lambda>x. x = (cid, True)) (session_log s'))"
  shows "ingress_inv ids s'"
  using assms by (simp add: ingress_inv_def)

lemma ingress_inv_same:
  assumes "ingress_inv ids s" and "session_log s' = session_log s" and "wire s' = wire s"
  shows "ingress_inv ids s'"
  using assms by (simp add: ingress_inv_def)

lemma ingress_inv_more_ids: "ingress_inv ids s \<Longrightarrow> ingress_inv (ids @ extra) s"
  by (auto simp add: ingress_inv_def)

lemma ingress_inv_step:
  assumes inv: "ingress_inv ids s"
    and ex: "exitCode (ingress_step s ev) = None"
    and uu: "list_all isUUID (connection_uuids [ev])"
    and fresh: "list_all (\<lambda>u. removeHyphens u \<notin> set ids) (connection_uuids [ev])"
  shows "ingress_inv (ids @ map removeHyphens (connection_uuids [ev])) (ingress_step s ev)"
proof -
  have live: "exitCode s = None"
    using ex ingress_step_exited [of s ev] by (cases "exitCode s") auto
  show ?thesis
  proof (cases ev)
    case (Connection i uuid)
    show ?thesis
    proof (cases "listening s \<and> i < length (portMappings s)")
      case False
      then have "ingress_step s ev = s" using Connection live by (auto simp add: ingress_step.simps)
      then show ?thesis using inv ingress_inv_more_ids by simp
    next
      case True
      then have st: "ingress_step s ev = ingress_connection i uuid s"
        using Connection live by (simp add: ingress_step.simps)
      have v: "validId (removeHyphens uuid)" using uu Connection by (simp add: validId_uuid)
      have f: "removeHyphens uuid \<notin> set ids" using fresh Connection by simp
      have "ingress_inv (ids @ [removeHyphens uuid]) (ingress_connection i uuid s)"
        using inv v f by (auto simp add: ingress_inv_def)
      then show ?thesis using st Connection by simp
    qed
  next
    case (ClientData h d)
    show ?thesis
    proof (cases "h < length (clientSockets s) \<and> \<not> ck_closed (clientSockets s ! h)")
      case False
      then have "ingress_step s ev = s" using ClientData live by (auto simp add: ingress_step.simps)
      then show ?thesis using inv ClientData by simp
    next
      case True
      then have st: "ingress_step s ev = ingress_clientData h d s"
        using ClientData live by (simp add: ingress_step.simps)
      from ingress_clientData_effect [of h d s] ex st
      have e: "session_log (ingress_clientData h d s) = session_log s"
        "wire (ingress_clientData h d s) = wire s
         \<or> (\<exists>b. wire (ingress_clientData h d s) = wire s @ [b]
                 \<and> (\<forall>cid. \<not> isDisconnectFor cid b))"
        by simp_all
      have "ingress_inv ids (ingress_clientData h d s)"
      proof (rule ingress_inv_wire [OF inv])
        show "map fst (session_log (ingress_clientData h d s)) = map fst (session_log s)"
          using e(1) by simp
        show "\<forall>cid. length (filter (isDisconnectFor cid) (wire (ingress_clientData h d s)))
                \<le> length (filter (\<lambda>x. x = (cid, True)) (session_log (ingress_clientData h d s)))"
          using e inv by (auto simp add: ingress_inv_def)
      qed
      then show ?thesis using st ClientData by simp
    qed
  next
    case (ClientClose h)
    show ?thesis
    proof (cases "h < length (clientSockets s) \<and> \<not> ck_closed (clientSockets s ! h)")
      case False
      then have "ingress_step s ev = s" using ClientClose live by (auto simp add: ingress_step.simps)
      then show ?thesis using inv ClientClose by simp
    next
      case True
      let ?s' = "ingress_clientClose h (markClientClosed h s)"
      let ?id = "ck_clientId (clientSockets s ! h)"
      have st: "ingress_step s ev = ?s'"
        using True ClientClose live by (simp add: ingress_step.simps)
      have h: "h < length (session_log s)" using True by (simp add: session_log_def)
      have lh: "session_log s ! h = (?id, False)" using True by (simp add: session_log_def)
      from ingress_clientClose_effect [of h s] ex st True
      have e: "session_log ?s' = (session_log s)[h := (?id, True)]"
        "wire ?s' = wire s
         \<or> (\<exists>b. wire ?s' = wire s @ [b]
                 \<and> createPacket CMD_DISCONNECT (JsString ?id) []
                       (remoteHost (ck_mapping (clientSockets s ! h)))
                       (remotePort (ck_mapping (clientSockets s ! h)))
                       (randomUUID (env s)) = Inr b)"
        by simp_all
      have mf: "map fst (session_log ?s') = map fst (session_log s)"
        unfolding e(1) by (rule map_update_same) (simp add: lh)
      have "?id \<in> set (map fst (session_log s))"
        using h lh by (metis fst_conv length_map nth_map nth_mem)
      then have vid: "validId ?id" using inv by (auto simp add: ingress_inv_def list_all_iff)
      have cnt: "length (filter (\<lambda>x. x = (cid, True)) (session_log ?s'))
                   = length (filter (\<lambda>x. x = (cid, True)) (session_log s))
                     + (if cid = ?id then 1 else 0)" for cid
        using filter_update_count [OF h, of "\<lambda>x. x = (cid, True)" "(?id, True)"] lh
        by (auto simp add: e(1))
      have old: "length (filter (isDisconnectFor cid) (wire s))
                   \<le> length (filter (\<lambda>x. x = (cid, True)) (session_log s))" for cid
        using inv by (simp add: ingress_inv_def)
      have "ingress_inv ids ?s'"
      proof (rule ingress_inv_wire [OF inv mf], rule allI)
        fix cid
        from e(2) show "length (filter (isDisconnectFor cid) (wire ?s'))
                \<le> length (filter (\<lambda>x. x = (cid, True)) (session_log ?s'))"
        proof
          assume "wire ?s' = wire s"
          then show ?thesis using old [of cid] cnt [of cid] by simp
        next
          assume "\<exists>b. wire ?s' = wire s @ [b]
                 \<and> createPacket CMD_DISCONNECT (JsString ?id) []
                       (remoteHost (ck_mapping (clientSockets s ! h)))
                       (remotePort (ck_mapping (clientSockets s ! h)))
                       (randomUUID (env s)) = Inr b"
          then obtain b where b: "wire ?s' = wire s @ [b]"
            "createPacket CMD_DISCONNECT (JsString ?id) []
                       (remoteHost (ck_mapping (clientSockets s ! h)))
                       (remotePort (ck_mapping (clientSockets s ! h)))
                       (randomUUID (env s)) = Inr b"
            by blast
          have "isDisconnectFor cid b = (cid = ?id)"
            by (rule disconnect_packet_id [OF b(2) vid])
          then show ?thesis using old [of cid] cnt [of cid] b(1) by auto
        qed
      qed
      then show ?thesis using st ClientClose by simp
    qed
  next
    case (ClientError h)
    show ?thesis
    proof (cases "h < length (clientSockets s) \<and> \<not> ck_closed (clientSockets s ! h)")
      case False
      then have "ingress_step s ev = s" using ClientError live by (auto simp add: ingress_step.simps)
      then show ?thesis using inv ClientError by simp
    next
      case True
      then have st: "ingress_step s ev = markClientDestroyed h s"
        using ClientError live by (simp add: ingress_step.simps)
      have "ingress_inv ids (markClientDestroyed h s)"
        by (rule ingress_inv_same [OF inv])
          (simp_all add: markClientDestroyed_def session_log_update)
      then show ?thesis using st ClientError by simp
    qed
  next
    case (UartData chunk)
    then have st: "ingress_step s ev = ingress_uartData chunk s"
      using live by (simp add: ingress_step.simps)
    have "ingress_inv ids (ingress_uartData chunk s)"
      by (rule ingress_inv_same [OF inv]) simp_all
    then show ?thesis using st UartData by simp
  next
    case Immediate
    show ?thesis
    proof (cases "immediates s > 0")
      case True
      then have "ingress_step s ev = ingress_gracefulShutdown (s\<lparr>immediates := immediates s - 1\<rparr>)"
        using Immediate live by (simp add: ingress_step.simps)
      then show ?thesis using ex ingress_shutdown_exits by simp
    next
      case False
      then have "ingress_step s ev = s" using Immediate live by (simp add: ingress_step.simps)
      then show ?thesis using inv Immediate by simp
    qed
  next
    case Interrupt
    then have "ingress_step s ev = ingress_gracefulShutdown s"
      using live by (simp add: ingress_step.simps)
    then show ?thesis using ex ingress_shutdown_exits by simp
  qed
qed

lemma ingress_inv_run:
  assumes "list_all isUUID (connection_uuids evs)"
    and "distinct (map removeHyphens (connection_uuids evs))"
    and "exitCode (ingress_run (ingress_init e ms) evs) = None"
  shows "ingress_inv (map removeHyphens (connection_uuids evs))
           (ingress_run (ingress_init e ms) evs)"
  using assms
proof (induction evs rule: rev_induct)
  case Nil
  show ?case by (simp add: ingress_run_def ingress_inv_def ingress_init_def session_log_def)
next
  case (snoc ev evs)
  let ?s = "ingress_run (ingress_init e ms) evs"
  have run: "ingress_run (ingress_init e ms) (evs @ [ev]) = ingress_step ?s ev"
    by (simp add: ingress_run_def)
  have ex: "exitCode (ingress_step ?s ev) = None" using snoc.prems(3) run by simp
  then have live: "exitCode ?s = None"
    using ingress_step_exited [of ?s ev] by (cases "exitCode ?s") auto
  have u: "list_all isUUID (connection_uuids evs)" "list_all isUUID (connection_uuids [ev])"
    using snoc.prems(1) by (simp_all add: connection_uuids_append)
  have d: "distinct (map removeHyphens (connection_uuids evs))"
    "list_all (\<lambda>u. removeHyphens u \<notin> set (map removeHyphens (connection_uuids evs)))
       (connection_uuids [ev])"
    using snoc.prems(2) by (auto simp add: connection_uuids_append list_all_iff)
  have inv: "ingress_inv (map removeHyphens (connection_uuids evs)) ?s"
    by (rule snoc.IH [OF u(1) d(1) live])
  from ingress_inv_step [OF inv ex u(2) d(2)]
  show ?case by (simp add: run connection_uuids_append)
qed

lemma clientEnd_sockets:
  "length (clientSockets (clientEnd h s)) = length (clientSockets s)"
  "ck_destroyed (clientSockets (clientEnd h s) ! j) = ck_destroyed (clientSockets s ! j)"
  "ck_ended (clientSockets s ! j) \<Longrightarrow> ck_ended (clientSockets (clientEnd h s) ! j)"
  "h < length (clientSockets s) \<Longrightarrow> ck_ended (clientSockets (clientEnd h s) ! h)"
proof -
  show "length (clientSockets (clientEnd h s)) = length (clientSockets s)"
    by (simp add: clientEnd_def)
  show "ck_destroyed (clientSockets (clientEnd h s) ! j) = ck_destroyed (clientSockets s ! j)"
    by (cases "h < length (clientSockets s)")
      (simp_all add: clientEnd_def nth_list_update list_update_beyond)
  show "ck_ended (clientSockets s ! j) \<Longrightarrow> ck_ended (clientSockets (clientEnd h s) ! j)"
    by (cases "h < length (clientSockets s)")
      (simp_all add: clientEnd_def nth_list_update list_update_beyond)
  show "h < length (clientSockets s) \<Longrightarrow> ck_ended (clientSockets (clientEnd h s) ! h)"
    by (simp add: clientEnd_def)
qed

lemma endClient_sockets:
  "length (clientSockets (endClient cid m s)) = length (clientSockets s)
   \<and> ck_destroyed (clientSockets (endClient cid m s) ! j) = ck_destroyed (clientSockets s ! j)
   \<and> (ck_ended (clientSockets s ! j) \<longrightarrow> ck_ended (clientSockets (endClient cid m s) ! j))"
proof (induction cid m s rule: endClient.induct)
  case (1 cid s)
  show ?case by simp
next
  case (2 cid port cs rest s)
  show ?case
  proof (cases "map_of cs cid")
    case None
    then show ?thesis using 2 by simp
  next
    case (Some h)
    show ?thesis
    proof (cases "ck_destroyed (clientSockets s ! h)")
      case True
      then show ?thesis using 2 Some by simp
    next
      case False
      then show ?thesis using 2 Some by (simp add: clientEnd_sockets)
    qed
  qed
qed

lemma endClient_ends:
  assumes "findClient cid m = Some h" and "h < length (clientSockets s)"
    and "\<not> ck_destroyed (clientSockets s ! h)"
  shows "ck_ended (clientSockets (endClient cid m s) ! h)"
  using assms
proof (induction cid m s rule: endClient.induct)
  case (1 cid s)
  then show ?case by simp
next
  case (2 cid port cs rest s)
  show ?case
  proof (cases "map_of cs cid")
    case None
    then show ?thesis using 2 by simp
  next
    case (Some h')
    then have hh: "h' = h" using 2(2) by simp
    have "ck_ended (clientSockets (clientEnd h s) ! h)"
      using 2(3) by (simp add: clientEnd_sockets)
    then have "ck_ended (clientSockets (endClient cid rest (clientEnd h s)) ! h)"
      using endClient_sockets [of cid rest "clientEnd h s" h] by simp
    then show ?thesis using Some hh 2(4) by simp
  qed
qed

lemma disconnect_ends_socket:
  assumes "int (cmd p) = CMD_DISCONNECT"
    and "findClient (clientId p) (clientsByPort s) = Some h"
    and "h < length (clientSockets s)" and "\<not> ck_destroyed (clientSockets s ! h)"
  shows "ck_ended (clientSockets (handleResponsePacket p s) ! h)"
  using assms endClient_ends [OF assms(2-4)]
  by (simp add: handleResponsePacket_def Let_def CMD_DISCONNECT_def CMD_DATA_def
        split: option.splits)

lemma disconnect_packet_exists:
  assumes "0 \<le> port" and "port \<le> 65535"
  shows "\<exists>b. createPacket CMD_DISCONNECT cid [] host port uuid = Inr b"
  using assms by (intro createPacket_succeeds) (simp_all add: CMD_DISCONNECT_def)

lemma clientClose_emits:
  assumes "h < length (clientSockets s)" and "serialOpen s"
    and "0 \<le> remotePort (ck_mapping (clientSockets s ! h))"
    and "remotePort (ck_mapping (clientSockets s ! h)) \<le> 65535"
  shows "\<exists>b. wire (ingress_clientClose h (markClientClosed h s)) = wire s @ [b]
             \<and> createPacket CMD_DISCONNECT (JsString (ck_clientId (clientSockets s ! h))) []
                   (remoteHost (ck_mapping (clientSockets s ! h)))
                   (remotePort (ck_mapping (clientSockets s ! h))) (randomUUID (env s)) = Inr b"
proof -
  let ?m = "markClientClosed h s"
  let ?k = "clientSockets s ! h"
  let ?k' = "clientSockets ?m ! h"
  have mk: "?k' = ?k\<lparr>ck_destroyed := True, ck_closed := True\<rparr>"
    using assms(1) by (simp add: markClientClosed_def)
  have kk: "ck_clientId ?k' = ck_clientId ?k" "ck_mapping ?k' = ck_mapping ?k"
    by (simp_all add: mk)
  have mw: "wire ?m = wire s" "serialOpen ?m = serialOpen s" "env ?m = env s"
    by (simp_all add: markClientClosed_def)
  define s1 where "s1 = (case map_of (clientsByPort ?m) (NumberKey (localPort (ck_mapping ?k'))) of
                  Some cs \<Rightarrow>
                    ?m\<lparr>clientsByPort :=
                        map_set (clientsByPort ?m) (NumberKey (localPort (ck_mapping ?k')))
                          (map_delete cs (ck_clientId ?k'))\<rparr>
                | None \<Rightarrow> ?m)"
  have s1: "wire s1 = wire s" "serialOpen s1 = serialOpen s" "env s1 = env s"
    unfolding s1_def by (simp_all add: mw split: option.splits)
  have cc: "ingress_clientClose h ?m =
              (if serialOpen s1 then
                 (case createPacket CMD_DISCONNECT (JsString (ck_clientId ?k')) []
                         (remoteHost (ck_mapping ?k')) (remotePort (ck_mapping ?k'))
                         (randomUUID (env s1)) of
                    Inl e \<Rightarrow> ingress_gracefulShutdown s1
                  | Inr packet \<Rightarrow> serialWrite packet s1)
               else s1)"
    unfolding ingress_clientClose_def Let_def s1_def ..
  note cc = cc [unfolded kk]
  obtain b where b: "createPacket CMD_DISCONNECT (JsString (ck_clientId ?k)) []
      (remoteHost (ck_mapping ?k)) (remotePort (ck_mapping ?k)) (randomUUID (env s)) = Inr b"
    using disconnect_packet_exists [OF assms(3,4)] by blast
  have "ingress_clientClose h ?m = serialWrite b s1"
    using assms(2) b by (simp add: cc s1)
  then show ?thesis using b by (simp add: s1)
qed

text \<open>
  Claim C3 (Disconnect uniqueness and non-echo), as amended. In every state that the
  ingress process reaches before a shutdown, with distinct session ids:
  on a Disconnect packet, \<open>handleResponsePacket\<close> ends the socket of the session (unless
  it is destroyed) and writes nothing to the serial port; when a socket closes, after a
  peer Disconnect or not, its \<open>close\<close> handler writes one Disconnect for its session if
  the serial port is open; and the wire holds at most one Disconnect for each session.
\<close>

theorem ingress_disconnect_handling:
  assumes "list_all isUUID (connection_uuids evs)"
    and "distinct (map removeHyphens (connection_uuids evs))"
    and "s = ingress_run (ingress_init e ms) evs"
    and "exitCode s = None"
  shows "(\<forall>p. int (cmd p) = CMD_DISCONNECT \<longrightarrow>
            wire (handleResponsePacket p s) = wire s
            \<and> (\<forall>h. findClient (clientId p) (clientsByPort s) = Some h
                     \<and> h < length (clientSockets s)
                     \<and> \<not> ck_destroyed (clientSockets s ! h)
                 \<longrightarrow> ck_ended (clientSockets (handleResponsePacket p s) ! h)))
         \<and> (\<forall>h. h < length (clientSockets s) \<and> \<not> ck_closed (clientSockets s ! h)
                  \<and> serialOpen s
                  \<and> 0 \<le> remotePort (ck_mapping (clientSockets s ! h))
                  \<and> remotePort (ck_mapping (clientSockets s ! h)) \<le> 65535
              \<longrightarrow> (\<exists>b. wire (ingress_step s (ClientClose h)) = wire s @ [b]
                       \<and> isDisconnectFor (ck_clientId (clientSockets s ! h)) b))
         \<and> (\<forall>cid. length (filter (isDisconnectFor cid) (wire s)) \<le> 1)"
proof -
  have inv: "ingress_inv (map removeHyphens (connection_uuids evs)) s"
    using ingress_inv_run [OF assms(1,2)] assms(3,4) by simp
  have a: "wire (handleResponsePacket p s) = wire s
            \<and> (\<forall>h. findClient (clientId p) (clientsByPort s) = Some h
                     \<and> h < length (clientSockets s)
                     \<and> \<not> ck_destroyed (clientSockets s ! h)
                 \<longrightarrow> ck_ended (clientSockets (handleResponsePacket p s) ! h))"
    if "int (cmd p) = CMD_DISCONNECT" for p
    using that disconnect_ends_socket [of p s] by simp
  have b: "\<exists>b. wire (ingress_step s (ClientClose h)) = wire s @ [b]
               \<and> isDisconnectFor (ck_clientId (clientSockets s ! h)) b"
    if h: "h < length (clientSockets s)" "\<not> ck_closed (clientSockets s ! h)" "serialOpen s"
      "0 \<le> remotePort (ck_mapping (clientSockets s ! h))"
      "remotePort (ck_mapping (clientSockets s ! h)) \<le> 65535" for h
  proof -
    have st: "ingress_step s (ClientClose h) = ingress_clientClose h (markClientClosed h s)"
      using h(1,2) assms(4) by (simp add: ingress_step.simps)
    from clientClose_emits [OF h(1,3,4,5)] obtain b where
      b: "wire (ingress_clientClose h (markClientClosed h s)) = wire s @ [b]"
        "createPacket CMD_DISCONNECT (JsString (ck_clientId (clientSockets s ! h))) []
           (remoteHost (ck_mapping (clientSockets s ! h)))
           (remotePort (ck_mapping (clientSockets s ! h))) (randomUUID (env s)) = Inr b"
      by blast
    have "ck_clientId (clientSockets s ! h) \<in> set (map fst (session_log s))"
      using h(1) by (force simp add: session_log_def)
    then have "validId (ck_clientId (clientSockets s ! h))"
      using inv by (auto simp add: ingress_inv_def list_all_iff)
    then have "isDisconnectFor (ck_clientId (clientSockets s ! h)) b"
      using disconnect_packet_id [OF b(2)] by simp
    then show ?thesis using b(1) st by auto
  qed
  have c: "length (filter (isDisconnectFor cid) (wire s)) \<le> 1" for cid
  proof -
    have "length (filter (isDisconnectFor cid) (wire s))
            \<le> length (filter (\<lambda>x. x = (cid, True)) (session_log s))"
      using inv by (simp add: ingress_inv_def)
    also have "\<dots> \<le> 1"
      using inv by (intro distinct_filter_le_1) (simp add: ingress_inv_def)
    finally show ?thesis .
  qed
  show ?thesis using a b c by blast
qed

lemma ingress_after_peer_disconnect:
  "ingress_run (ingress_init example_env example_mappings)
     [Connection 0 example_uuid, UartData (frame_bytes example_disconnect_frame)]
   = \<lparr>serialOpen = True, wire = [], streamBuffer = [], exitCode = None, env = example_env,
      portMappings = example_mappings,
      clientsByPort = [(NumberKey 8080, [(''123e4567e89b42d3a456426614174000'', 0)])],
      clientSockets =
        [\<lparr>ck_clientId = ''123e4567e89b42d3a456426614174000'',
          ck_mapping = \<lparr>localPort = 8080, remoteHost = ''localhost'', remotePort = 22\<rparr>,
          ck_written = [], ck_ended = True, ck_destroyed = False, ck_closed = False\<rparr>],
      listening = True, immediates = 0\<rparr>"
proof -
  have "ingress_run (ingress_init example_env example_mappings)
          [Connection 0 example_uuid, UartData (frame_bytes example_disconnect_frame)]
        = ingress_step ingress_one_client (UartData (frame_bytes example_disconnect_frame))"
    by (simp add: ingress_one_client_def ingress_run_def)
  also have "\<dots> = ingress_uartData (frame_bytes example_disconnect_frame) ingress_one_client"
    by (simp add: ingress_step.simps ingress_one_client_state)
  finally show ?thesis
    by (simp add: ingress_uartData_def example_transforms example_packets
          handleResponsePacket_def CMD_DATA_def CMD_DISCONNECT_def Let_def
          ingress_one_client_state clientEnd_def)
qed

theorem ingress_disconnect_handling_witness:
  "map ck_ended (clientSockets (ingress_run (ingress_init example_env example_mappings)
      [Connection 0 example_uuid, UartData (frame_bytes example_disconnect_frame)])) = [True]
   \<and> wire (ingress_run (ingress_init example_env example_mappings)
      [Connection 0 example_uuid, UartData (frame_bytes example_disconnect_frame)]) = []
   \<and> (\<exists>b. wire (ingress_run (ingress_init example_env example_mappings)
             [Connection 0 example_uuid, UartData (frame_bytes example_disconnect_frame),
              ClientClose 0]) = [b]
           \<and> isDisconnectFor ''123e4567e89b42d3a456426614174000'' b)
   \<and> length (filter (isDisconnectFor ''123e4567e89b42d3a456426614174000'')
        (wire (ingress_run (ingress_init example_env example_mappings)
           [Connection 0 example_uuid, UartData (frame_bytes example_disconnect_frame)])))
       \<le> 1"
proof -
  let ?evs = "[Connection 0 example_uuid, UartData (frame_bytes example_disconnect_frame)]"
  let ?s = "ingress_run (ingress_init example_env example_mappings) ?evs"
  have "isUUID example_uuid" by code_simp
  then have u: "list_all isUUID (connection_uuids ?evs)" by simp
  have d: "distinct (map removeHyphens (connection_uuids ?evs))" by simp
  have x: "exitCode ?s = None" by (simp add: ingress_after_peer_disconnect)
  note t = ingress_disconnect_handling [OF u d refl x]
  have h: "0 < length (clientSockets ?s) \<and> \<not> ck_closed (clientSockets ?s ! 0)
           \<and> serialOpen ?s \<and> 0 \<le> remotePort (ck_mapping (clientSockets ?s ! 0))
           \<and> remotePort (ck_mapping (clientSockets ?s ! 0)) \<le> 65535"
    by (simp add: ingress_after_peer_disconnect)
  note t2 = t [THEN conjunct2, THEN conjunct1, rule_format, of 0, OF h]
  note t3 = t [THEN conjunct2, THEN conjunct2, rule_format,
               of "''123e4567e89b42d3a456426614174000''"]
  from t2 obtain b where
    b: "wire (ingress_step ?s (ClientClose 0)) = wire ?s @ [b]"
      "isDisconnectFor (ck_clientId (clientSockets ?s ! 0)) b"
    by (elim exE conjE)
  have r: "ingress_run (ingress_init example_env example_mappings)
             [Connection 0 example_uuid, UartData (frame_bytes example_disconnect_frame),
              ClientClose 0] = ingress_step ?s (ClientClose 0)"
    by (simp add: ingress_run_def)
  have c: "length (filter (isDisconnectFor ''123e4567e89b42d3a456426614174000'') (wire ?s)) \<le> 1"
    by (rule t3)
  have e: "wire (ingress_step ?s (ClientClose 0)) = [b]"
    "isDisconnectFor ''123e4567e89b42d3a456426614174000'' b"
    using b by (simp_all add: ingress_after_peer_disconnect)
  have "\<exists>b. wire (ingress_step ?s (ClientClose 0)) = [b]
           \<and> isDisconnectFor ''123e4567e89b42d3a456426614174000'' b"
    using e by blast
  then show ?thesis
    unfolding r using c by (simp add: ingress_after_peer_disconnect)
qed

theorem disconnect_echo_counterexample:
  "clientsByPort (ingress_run (ingress_init example_env example_mappings)
      [Connection 0 example_uuid, UartData (frame_bytes example_disconnect_frame)])
     = [(NumberKey 8080, [(''123e4567e89b42d3a456426614174000'', 0)])]
   \<and> wire (ingress_run (ingress_init example_env example_mappings)
      [Connection 0 example_uuid, UartData (frame_bytes example_disconnect_frame),
       ClientClose 0])
     = [[3, 0x12, 0x3e, 0x45, 0x67, 0xe8, 0x9b, 0x42, 0xd3, 0xa4, 0x56, 0x42, 0x66,
         0x14, 0x17, 0x40, 0x00, 0, 0, 0, 0, 0, 22, 0, 0, 0, 0]]"
proof -
  let ?s = "ingress_run (ingress_init example_env example_mappings)
              [Connection 0 example_uuid, UartData (frame_bytes example_disconnect_frame)]"
  have r: "ingress_run (ingress_init example_env example_mappings)
             [Connection 0 example_uuid, UartData (frame_bytes example_disconnect_frame),
              ClientClose 0] = ingress_step ?s (ClientClose 0)"
    by (simp add: ingress_run_def)
  have u: "randomUUID example_env = example_uuid" by (simp add: example_env_def)
  have w: "wire (ingress_step ?s (ClientClose 0))
     = [[3, 0x12, 0x3e, 0x45, 0x67, 0xe8, 0x9b, 0x42, 0xd3, 0xa4, 0x56, 0x42, 0x66,
         0x14, 0x17, 0x40, 0x00, 0, 0, 0, 0, 0, 22, 0, 0, 0, 0]]"
    by (simp add: ingress_after_peer_disconnect ingress_step.simps markClientClosed_def
          ingress_clientClose_def Let_def u example_disconnect_packets serialWrite_def)
  show ?thesis unfolding r using w by (simp add: ingress_after_peer_disconnect)
qed

end
